theory Spec2Isabelle
  imports
    Main
    "HOL-Library.Word"
    "HOL-Library.Char_ord"
    "HOL-Library.List_Lexorder"
    "HOL-Library.Multiset"
begin

section \<open>Shared conventions\<close>

text \<open>
  The development embeds the parts of the recorder that the checked properties talk
  about: the post-processor's directory scan and aggregation
  (\<^verbatim>\<open>pkg/processing/service.go\<close>), the manifest writer
  (\<^verbatim>\<open>pkg/media/playlist.go\<close>, second document), the segment fetcher
  (\<^verbatim>\<open>pkg/media/segment.go\<close>), the variant poller
  (\<^verbatim>\<open>pkg/media/stream.go\<close>) and the transfer queue
  (\<^verbatim>\<open>pkg/transfer/queue.go\<close>).

  Go strings are byte strings and are compared bytewise, a proper prefix being smaller:
  this is the lexicographic order on \<^typ>\<open>string\<close> from
  \<^verbatim>\<open>HOL-Library.List_Lexorder\<close> over \<^verbatim>\<open>HOL-Library.Char_ord\<close>.
  Go's \<^verbatim>\<open>int\<close> and \<^verbatim>\<open>int64\<close> are modelled as \<^typ>\<open>int\<close> where no
  arithmetic can overflow, and as \<^typ>\<open>64 word\<close>, like \<^verbatim>\<open>uint64\<close>, where the
  source increments or multiplies them.  Several Go structs share field names; the record fields carry
  a short prefix naming their struct.

  The outside world (HTTP replies, the file system, timers, cancellation) enters every
  function as an explicit argument that lists what each call returned.
\<close>

text \<open>A run either returns or dies with a Go runtime panic.\<close>

datatype 'a outcome = Panic | Returns 'a

section \<open>Post-processor: aggregation (\<^verbatim>\<open>AggregateSegmentInfo\<close>)\<close>

record SegmentInfo =
  si_Name :: string
  si_SeqNo :: int
  si_Resolution :: string

text \<open>The literal map \<^verbatim>\<open>rank\<close> of \<^verbatim>\<open>AggregateSegmentInfo\<close>.\<close>

definition rank :: "string \<rightharpoonup> int" where
  "rank = map_of
     [(''1080p'', 1), (''720p'', 2), (''540p'', 3), (''480p'', 4),
      (''450p'', 5), (''360p'', 6), (''270p'', 7), (''240p'', 8)]"

text \<open>Reading a Go map at a missing key yields the zero value of the element type.\<close>

definition rank_of :: "string \<Rightarrow> int" where
  "rank_of r = (case rank r of None \<Rightarrow> 0 | Some n \<Rightarrow> n)"

text \<open>
  One turn of \<^verbatim>\<open>for segment := range ch\<close>: the received record replaces the stored
  one when the sequence number is new or the received rank is strictly smaller.
\<close>

definition aggregate_step :: "(int \<rightharpoonup> SegmentInfo) \<Rightarrow> SegmentInfo \<Rightarrow> (int \<rightharpoonup> SegmentInfo)" where
  "aggregate_step segmentMap segment =
     (case segmentMap (si_SeqNo segment) of
        None \<Rightarrow> segmentMap(si_SeqNo segment \<mapsto> segment)
      | Some current \<Rightarrow>
          if rank_of (si_Resolution segment) < rank_of (si_Resolution current)
          then segmentMap(si_SeqNo segment \<mapsto> segment)
          else segmentMap)"

text \<open>The channel is read until it is closed: the list holds the records in the order received.\<close>

definition AggregateSegmentInfo :: "SegmentInfo list \<Rightarrow> (int \<rightharpoonup> SegmentInfo)" where
  "AggregateSegmentInfo ch = foldl aggregate_step Map.empty ch"

section \<open>Post-processor: directory scan (\<^verbatim>\<open>ParseResolutionDirectory\<close>)\<close>

text \<open>What \<^verbatim>\<open>os.ReadDir\<close> reports of an entry: its name and whether it is a directory.\<close>

record DirEntry =
  de_Name :: string
  de_IsDir :: bool

datatype ReadDir = ReadDirErr string | ReadDirOk "DirEntry list"

text \<open>
  \<^verbatim>\<open>strings.ToLower\<close> on the bytes of a name.  Only the ASCII letters matter to the
  suffix test below: no other code point has a lower-case form among the bytes of
  \<^verbatim>\<open>.ts\<close>.
\<close>

definition lower_byte :: "char \<Rightarrow> char" where
  "lower_byte c = (if CHR ''A'' \<le> c \<and> c \<le> CHR ''Z'' then char_of (of_char c + (32::nat)) else c)"

definition ToLower :: "string \<Rightarrow> string" where
  "ToLower s = map lower_byte s"

text \<open>\<^verbatim>\<open>strings.HasSuffix\<close>: \<^verbatim>\<open>len(s) >= len(suffix) && s[len(s)-len(suffix):] == suffix\<close>.\<close>

definition HasSuffix :: "string \<Rightarrow> string \<Rightarrow> bool" where
  "HasSuffix s sfx = (length sfx \<le> length s \<and> drop (length s - length sfx) s = sfx)"

text \<open>
  The slice expression \<^verbatim>\<open>s[lo:hi]\<close> on a string: a run-time panic unless
  \<^verbatim>\<open>lo <= hi <= len(s)\<close>.
\<close>

definition slice :: "string \<Rightarrow> nat \<Rightarrow> nat \<Rightarrow> string outcome" where
  "slice s lo hi = (if lo \<le> hi \<and> hi \<le> length s then Returns (take (hi - lo) (drop lo s)) else Panic)"

text \<open>
  \<^verbatim>\<open>strconv.Atoi\<close>: an optional sign, then one or more decimal digits; a value outside
  the 64-bit range is a range error.
\<close>

datatype NumError = ErrSyntax | ErrRange

definition is_digit :: "char \<Rightarrow> bool" where
  "is_digit c = (CHR ''0'' \<le> c \<and> c \<le> CHR ''9'')"

definition digit_val :: "char \<Rightarrow> int" where
  "digit_val c = int (of_char c) - 48"

definition digits_val :: "string \<Rightarrow> int" where
  "digits_val s = foldl (\<lambda>n c. n * 10 + digit_val c) 0 s"

definition Atoi :: "string \<Rightarrow> NumError + int" where
  "Atoi s0 =
     (case s0 of
        [] \<Rightarrow> Inl ErrSyntax
      | c # cs \<Rightarrow>
          let s = (if c = CHR ''-'' \<or> c = CHR ''+'' then cs else s0) in
          if s = [] \<or> \<not> list_all is_digit s then Inl ErrSyntax
          else
            let n = (if c = CHR ''-'' then - digits_val s else digits_val s) in
            if - (2 ^ 63) \<le> n \<and> n < 2 ^ 63 then Inr n else Inl ErrRange)"

text \<open>
  The loop over the directory entries.  The result lists the records sent on the channel,
  in order; a panic inside the loop ends the process.
\<close>

fun parse_files :: "string \<Rightarrow> DirEntry list \<Rightarrow> SegmentInfo list outcome" where
  "parse_files resolution [] = Returns []"
| "parse_files resolution (file # files) =
     (if de_IsDir file then parse_files resolution files
      else if \<not> HasSuffix (ToLower (de_Name file)) ''.ts'' then parse_files resolution files
      else
        (case slice (de_Name file) 6 10 of
           Panic \<Rightarrow> Panic
         | Returns sub \<Rightarrow>
             (case Atoi sub of
                Inl err \<Rightarrow> parse_files resolution files
              | Inr no \<Rightarrow>
                  (case parse_files resolution files of
                     Panic \<Rightarrow> Panic
                   | Returns sent \<Rightarrow>
                       Returns (\<lparr>si_Name = de_Name file, si_SeqNo = no,
                                  si_Resolution = resolution\<rparr> # sent)))))"

text \<open>A directory that cannot be read is logged and nothing is sent.\<close>

definition ParseResolutionDirectory :: "string \<Rightarrow> ReadDir \<Rightarrow> SegmentInfo list outcome" where
  "ParseResolutionDirectory resolution dir =
     (case dir of
        ReadDirErr err \<Rightarrow> Returns []
      | ReadDirOk files \<Rightarrow> parse_files resolution files)"

section \<open>Manifest writer (\<^verbatim>\<open>ManifestWriter\<close>)\<close>

record ManifestItem =
  mi_SeqNo :: string
  mi_Resolution :: string

text \<open>
  \<^verbatim>\<open>Segments\<close> is a slice of item values, \<^verbatim>\<open>Index\<close> a map to item pointers.
  The pointers are kept apart from the values they were created from: \<^verbatim>\<open>mw_cells\<close>
  is the store of the cells the index points into, a pointer being a position in it.
  A nil slice or map behaves as an empty one here, so the two nil checks at the head of
  \<^verbatim>\<open>AddOrUpdateSegment\<close> change nothing in this model.
\<close>

record ManifestWriter =
  mw_ManifestPath :: string
  mw_Segments :: "ManifestItem list"
  mw_Index :: "string \<rightharpoonup> nat"
  mw_cells :: "ManifestItem list"

text \<open>
  \<^verbatim>\<open>NewManifestWriter\<close>, with the manifest path (which the source reads from the
  configuration) as an argument.
\<close>

definition NewManifestWriter :: "string \<Rightarrow> ManifestWriter" where
  "NewManifestWriter path =
     \<lparr>mw_ManifestPath = path, mw_Segments = [], mw_Index = Map.empty, mw_cells = []\<rparr>"

text \<open>
  \<^verbatim>\<open>AddOrUpdateSegment\<close>.  On a known sequence number the write
  \<^verbatim>\<open>existing.Resolution = resolution\<close> goes through the pointer held by the index.
  On a new one the local variable \<^verbatim>\<open>item\<close> is copied into the slice by
  \<^verbatim>\<open>append\<close>, and the index receives \<^verbatim>\<open>&item\<close>, the address of the variable
  itself: a fresh cell.  (An index entry always points to an allocated cell; the guard on
  the position only makes the function total.)
\<close>

definition AddOrUpdateSegment :: "ManifestWriter \<Rightarrow> string \<Rightarrow> string \<Rightarrow> ManifestWriter" where
  "AddOrUpdateSegment m seqNo resolution =
     (case mw_Index m seqNo of
        Some p \<Rightarrow>
          if p < length (mw_cells m) \<and> mi_Resolution (mw_cells m ! p) < resolution
          then m\<lparr>mw_cells := (mw_cells m)[p := (mw_cells m ! p)\<lparr>mi_Resolution := resolution\<rparr>]\<rparr>
          else m
      | None \<Rightarrow>
          let item = \<lparr>mi_SeqNo = seqNo, mi_Resolution = resolution\<rparr> in
          m\<lparr>mw_Segments := mw_Segments m @ [item],
            mw_cells := mw_cells m @ [item],
            mw_Index := (mw_Index m)(seqNo \<mapsto> length (mw_cells m))\<rparr>)"

text \<open>
  \<^verbatim>\<open>WriteManifest\<close> sorts \<^verbatim>\<open>m.Segments\<close> by \<^verbatim>\<open>SeqNo\<close> and marshals that
  slice.  The result is the list of items written to the file, or nothing when the path
  is rejected, the file cannot be created or the write fails.  \<^verbatim>\<open>sort.Slice\<close>
  leaves the order of items with equal keys open; a writer filled by
  \<^verbatim>\<open>AddOrUpdateSegment\<close> has no two items with one key.
\<close>

datatype WriteEnv = PathInvalid | CreateFails | WriteFails | WriteOk

definition WriteManifest :: "ManifestWriter \<Rightarrow> WriteEnv \<Rightarrow> ManifestItem list option" where
  "WriteManifest m env =
     (let data = sort_key mi_SeqNo (mw_Segments m) in
      case env of
        PathInvalid \<Rightarrow> None
      | CreateFails \<Rightarrow> None
      | WriteFails \<Rightarrow> None
      | WriteOk \<Rightarrow> Some data)"

text \<open>The calls of a run, applied in order to a new writer.\<close>

definition add_all :: "ManifestWriter \<Rightarrow> (string \<times> string) list \<Rightarrow> ManifestWriter" where
  "add_all m calls = foldl (\<lambda>w (seqNo, resolution). AddOrUpdateSegment w seqNo resolution) m calls"

section \<open>Time and errors\<close>

text \<open>\<^verbatim>\<open>time.Duration\<close> is a count of nanoseconds.\<close>

type_synonym Duration = int

definition Nanosecond :: Duration where "Nanosecond = 1"
definition Millisecond :: Duration where "Millisecond = 1000000 * Nanosecond"
definition Second :: Duration where "Second = 1000 * Millisecond"

text \<open>The product of two durations in \<^verbatim>\<open>int64\<close>: it wraps around.\<close>

definition Duration_times :: "Duration \<Rightarrow> Duration \<Rightarrow> Duration" where
  "Duration_times a b = sint (word_of_int a * word_of_int b :: 64 word)"

text \<open>
  Go error values: \<^verbatim>\<open>*httpClient.HttpError\<close> with its status code, and every other
  error by its message.  A nil error is \<^term>\<open>None\<close>.
\<close>

datatype error = HttpError int | Err string

text \<open>The verb \<^verbatim>\<open>%d\<close> on an unsigned number: its decimal digits.\<close>

function decimal :: "nat \<Rightarrow> string" where
  "decimal n = (if n < 10 then [char_of (48 + n)] else decimal (n div 10) @ [char_of (48 + n mod 10)])"
  by pat_completeness auto
termination
  by (relation "measure (\<lambda>n. n)") auto

text \<open>The method \<^verbatim>\<open>Error()\<close>; for \<^verbatim>\<open>HttpError\<close> it is \<^verbatim>\<open>fmt.Sprintf("httpClient %d", e.Code)\<close>.\<close>

definition Error :: "error \<Rightarrow> string" where
  "Error e =
     (case e of
        HttpError code \<Rightarrow> ''httpClient '' @ (if code < 0 then ''-'' else []) @ decimal (nat \<bar>code\<bar>)
      | Err msg \<Rightarrow> msg)"

section \<open>Segment fetcher (\<^verbatim>\<open>DownloadSegment\<close>)\<close>

text \<open>
  What one turn of the attempt loop meets: the request cannot be built, the round trip
  fails, or a response arrives with a status code; for a response, what writing the body
  to the output file gives (used only when the status is 200).
\<close>

datatype BodyIO = MkdirFails string | CreateFails string | CopyFails string | Copied int






section \<open>Constants and configuration defaults\<close>

text \<open>The untyped constants of \<^verbatim>\<open>pkg/constants/constants.go\<close>.\<close>

definition WorkerCount :: int where "WorkerCount = 4"
definition RefreshDelay :: int where "RefreshDelay = 3"

text \<open>
  The configuration (\<^verbatim>\<open>defaultConfig\<close> and \<^verbatim>\<open>loadFromEnvironment\<close>): the refresh
  delay is 3 seconds unless \<^verbatim>\<open>REFRESH_DELAY_SECONDS\<close> is set to a number, which is then
  taken in seconds.  The argument is the value of the environment variable, if set.
\<close>

definition defaultConfig_Core_RefreshDelay :: Duration where
  "defaultConfig_Core_RefreshDelay = 3 * Second"

definition Core_RefreshDelay :: "string option \<Rightarrow> Duration" where
  "Core_RefreshDelay REFRESH_DELAY_SECONDS =
     (case REFRESH_DELAY_SECONDS of
        None \<Rightarrow> defaultConfig_Core_RefreshDelay
      | Some val \<Rightarrow>
          if val = [] then defaultConfig_Core_RefreshDelay
          else (case Atoi val of
                  Inr parsed \<Rightarrow> Duration_times parsed Second
                | Inl err \<Rightarrow> defaultConfig_Core_RefreshDelay))"

section \<open>Variant poller (\<^verbatim>\<open>VariantDownloader\<close>)\<close>

text \<open>
  Of a decoded media playlist the poller reads the starting sequence number, the segment
  slots (a slot may be nil) with their URIs, and the closed flag.
\<close>

record MediaSegment =
  ms_URI :: string

record MediaPlaylist =
  pl_SeqNo :: "64 word"
  pl_Segments :: "MediaSegment option list"
  pl_Closed :: bool

text \<open>\<^verbatim>\<open>StreamVariant\<close> without its parsed base URL and its manifest writer, which the loop does not read.\<close>

record StreamVariant =
  sv_URL :: string
  sv_Bandwidth :: "32 word"
  sv_ID :: int
  sv_Resolution :: string
  sv_OutputDir :: string

record SegmentJob =
  sj_URI :: string
  sj_Seq :: "64 word"
  sj_VariantID :: int
  sj_Variant :: StreamVariant

text \<open>\<^verbatim>\<open>SegmentJob.Key\<close>: \<^verbatim>\<open>fmt.Sprintf("%d:%s", j.Seq, j.URI)\<close>.\<close>

definition Key :: "SegmentJob \<Rightarrow> string" where
  "Key j = decimal (unat (sj_Seq j)) @ '':'' @ sj_URI j"

text \<open>
  \<^verbatim>\<open>LoadMediaPlaylist\<close>.  The error of \<^verbatim>\<open>http.NewRequest\<close> is dropped, so for a URL it
  refuses the request is nil and setting its header panics.  Otherwise the GET fails, or
  the body decodes with an error, to a master playlist or to a media playlist.  A call
  that returns gives the pair of the Go function: a playlist pointer (nil is
  \<^term>\<open>None\<close>) and an error (nil is \<^term>\<open>None\<close>).
\<close>

datatype Decoded = DecodeErr string | DecodedMaster | DecodedMedia MediaPlaylist

datatype Fetch = RequestNil | GetFails string | Body Decoded

definition LoadMediaPlaylist :: "Fetch \<Rightarrow> (MediaPlaylist option \<times> error option) outcome" where
  "LoadMediaPlaylist fetch =
     (case fetch of
        RequestNil \<Rightarrow> Panic
      | GetFails msg \<Rightarrow> Returns (None, Some (Err msg))
      | Body (DecodeErr msg) \<Rightarrow> Returns (None, Some (Err msg))
      | Body DecodedMaster \<Rightarrow> Returns (None, Some (Err ''expected media playlist but got master''))
      | Body (DecodedMedia pl) \<Rightarrow> Returns (Some pl, None))"

text \<open>
  The state of a poller: the period of the ticker made at its start, the seen-set
  (\<^verbatim>\<open>seen\<close> is a \<^verbatim>\<open>map[string]bool\<close> that only ever receives \<^verbatim>\<open>true\<close>: the set of
  its keys), the download tasks started so far, in order, the log lines of the loop, and
  for every wait that ended with a tick the period of the ticker it waited on (the wait
  lasts at most that long).
\<close>

record Poller =
  p_ticker :: Duration
  p_seen :: "string set"
  p_spawned :: "SegmentJob list"
  p_log :: "string list"
  p_waits :: "Duration list"

text \<open>
  The loop over \<^verbatim>\<open>playlist.Segments\<close>, on the seen-set, the started tasks and the
  running sequence number.  A nil slot is passed over without counting.  Taking a
  concurrency slot before the task starts is a wait, not a change of this state.
\<close>

fun segment_loop ::
  "StreamVariant \<Rightarrow> string set \<times> SegmentJob list \<times> 64 word \<Rightarrow> MediaSegment option list
     \<Rightarrow> string set \<times> SegmentJob list \<times> 64 word" where
  "segment_loop variant (seen, spawned, seq) [] = (seen, spawned, seq)"
| "segment_loop variant (seen, spawned, seq) (None # segs) =
     segment_loop variant (seen, spawned, seq) segs"
| "segment_loop variant (seen, spawned, seq) (Some seg # segs) =
     (let job = \<lparr>sj_URI = ms_URI seg, sj_Seq = seq, sj_VariantID = sv_ID variant,
                  sj_Variant = variant\<rparr>;
          segmentKey = Key job
      in if segmentKey \<in> seen then segment_loop variant (seen, spawned, seq + 1) segs
         else segment_loop variant (insert segmentKey seen, spawned @ [job], seq + 1) segs)"

text \<open>
  What one turn of the outer loop meets: whether the context is done at its head, what
  the playlist fetch gives, and whether the final \<^verbatim>\<open>select\<close> takes the context's
  \<^verbatim>\<open>Done\<close> rather than the tick.
\<close>

record Tick =
  t_cancelled :: bool
  t_fetch :: Fetch
  t_wait_cancelled :: bool

datatype Status = Polling | Returned | Panicked

text \<open>The label \<^verbatim>\<open>waitTick\<close>: the \<^verbatim>\<open>select\<close> on the context and on \<^verbatim>\<open>ticker.C\<close>.\<close>

definition waitTick :: "Poller \<Rightarrow> Tick \<Rightarrow> Poller \<times> Status" where
  "waitTick st t =
     (if t_wait_cancelled t then (st, Returned)
      else (st\<lparr>p_waits := p_waits st @ [p_ticker st]\<rparr>, Polling))"

text \<open>
  One turn of the outer loop.  \<^verbatim>\<open>seq := playlist.SeqNo\<close> comes before the test of
  \<^verbatim>\<open>err\<close>: it reads through the playlist pointer, which panics when the pointer is nil.
\<close>

definition iteration :: "StreamVariant \<Rightarrow> Poller \<Rightarrow> Tick \<Rightarrow> Poller \<times> Status" where
  "iteration variant st t =
     (if t_cancelled t then (st, Returned)
      else
        (case LoadMediaPlaylist (t_fetch t) of
           Panic \<Rightarrow> (st, Panicked)
         | Returns (playlist, err) \<Rightarrow>
             (case playlist of
                None \<Rightarrow> (st, Panicked)
              | Some pl \<Rightarrow>
                  (let seq = pl_SeqNo pl in
                   case err of
                     Some e \<Rightarrow>
                       waitTick
                         (st\<lparr>p_log := p_log st @
                               [sv_Resolution variant @ '': Error loading playlist playlist: '' @ Error e]\<rparr>) t
                   | None \<Rightarrow>
                       (case segment_loop variant (p_seen st, p_spawned st, seq) (pl_Segments pl) of
                          (seen, spawned, seq') \<Rightarrow>
                            let st' = st\<lparr>p_seen := seen, p_spawned := spawned\<rparr> in
                            if pl_Closed pl
                            then (st'\<lparr>p_log := p_log st' @
                                        [sv_Resolution variant @ '': Playlist closed (#EXT-X-ENDLIST)'']\<rparr>,
                                  Returned)
                            else waitTick st' t)))))"

text \<open>The outer loop, driven by the list of what its turns meet; it is still polling when the list ends.\<close>

fun poll :: "StreamVariant \<Rightarrow> Poller \<Rightarrow> Tick list \<Rightarrow> Poller \<times> Status" where
  "poll variant st [] = (st, Polling)"
| "poll variant st (t # ts) =
     (case iteration variant st t of
        (st', Polling) \<Rightarrow> poll variant st' ts
      | (st', Returned) \<Rightarrow> (st', Returned)
      | (st', Panicked) \<Rightarrow> (st', Panicked))"

text \<open>\<^verbatim>\<open>VariantDownloader\<close>: \<^verbatim>\<open>time.NewTicker(constants.RefreshDelay)\<close>, an empty seen-set, then the loop.\<close>

definition new_poller :: Poller where
  "new_poller = \<lparr>p_ticker = RefreshDelay, p_seen = {}, p_spawned = [], p_log = [], p_waits = []\<rparr>"

definition VariantDownloader :: "StreamVariant \<Rightarrow> Tick list \<Rightarrow> Poller \<times> Status" where
  "VariantDownloader variant ticks = poll variant new_poller ticks"

text \<open>
  The jobs a playlist stands for: one for each non-nil slot, numbered from the starting
  sequence number.  Their keys are the segment keys derived from the playlist.
\<close>

fun playlist_jobs :: "StreamVariant \<Rightarrow> 64 word \<Rightarrow> MediaSegment option list \<Rightarrow> SegmentJob list" where
  "playlist_jobs variant seq [] = []"
| "playlist_jobs variant seq (None # segs) = playlist_jobs variant seq segs"
| "playlist_jobs variant seq (Some seg # segs) =
     \<lparr>sj_URI = ms_URI seg, sj_Seq = seq, sj_VariantID = sv_ID variant, sj_Variant = variant\<rparr>
       # playlist_jobs variant (seq + 1) segs"

text \<open>The seen-set and the download tasks of a poller after the turns \<^verbatim>\<open>ticks\<close>.\<close>

abbreviation seen_after :: "StreamVariant \<Rightarrow> Tick list \<Rightarrow> string set" where
  "seen_after variant ticks \<equiv> p_seen (fst (VariantDownloader variant ticks))"

abbreviation spawned_after :: "StreamVariant \<Rightarrow> Tick list \<Rightarrow> SegmentJob list" where
  "spawned_after variant ticks \<equiv> p_spawned (fst (VariantDownloader variant ticks))"

section \<open>Transfer queue (\<^verbatim>\<open>TransferQueue\<close>)\<close>

text \<open>
  \<^verbatim>\<open>TransferStatus\<close> is an \<^verbatim>\<open>int\<close> with five named values, numbered by \<^verbatim>\<open>iota\<close>; a
  snapshot file may hold any number.  Go's \<^verbatim>\<open>int\<close> and \<^verbatim>\<open>int64\<close> counters are 64-bit
  words, so \<^verbatim>\<open>++\<close> wraps as it does in the program.  A \<^verbatim>\<open>time.Time\<close> is an instant,
  counted in nanoseconds.
\<close>

type_synonym TransferStatus = int

definition StatusPending :: TransferStatus where "StatusPending = 0"
definition StatusInProgress :: TransferStatus where "StatusInProgress = 1"
definition StatusCompleted :: TransferStatus where "StatusCompleted = 2"
definition StatusFailed :: TransferStatus where "StatusFailed = 3"
definition StatusRetrying :: TransferStatus where "StatusRetrying = 4"

record TransferItem =
  ti_ID :: string
  ti_SourcePath :: string
  ti_DestinationPath :: string
  ti_Resolution :: string
  ti_Timestamp :: int
  ti_RetryCount :: "64 word"
  ti_Status :: TransferStatus
  ti_FileSize :: "64 word"
  ti_LastError :: string

record QueueConfig =
  qc_WorkerCount :: "64 word"
  qc_PersistencePath :: string
  qc_MaxQueueSize :: "64 word"
  qc_BatchSize :: "64 word"

record CleanupConfig =
  cc_Enabled :: bool
  cc_RetentionPeriod :: Duration
  cc_BatchSize :: "64 word"
  cc_CheckInterval :: Duration

record QueueStats =
  qs_TotalAdded :: "64 word"
  qs_TotalCompleted :: "64 word"
  qs_TotalFailed :: "64 word"
  qs_CurrentPending :: "64 word"
  qs_BytesTransferred :: "64 word"

definition IncrementCompleted :: "QueueStats \<Rightarrow> 64 word \<Rightarrow> QueueStats" where
  "IncrementCompleted qs bytes =
     qs\<lparr>qs_TotalCompleted := qs_TotalCompleted qs + 1,
        qs_CurrentPending := qs_CurrentPending qs - 1,
        qs_BytesTransferred := qs_BytesTransferred qs + bytes\<rparr>"

definition IncrementFailed :: "QueueStats \<Rightarrow> QueueStats" where
  "IncrementFailed qs =
     qs\<lparr>qs_TotalFailed := qs_TotalFailed qs + 1,
        qs_CurrentPending := qs_CurrentPending qs - 1\<rparr>"

record CleanupService =
  cs_config :: CleanupConfig
  cs_pendingFiles :: "string list"

text \<open>\<^verbatim>\<open>ScheduleCleanup\<close> always returns a nil error; only the service changes.\<close>

definition ScheduleCleanup :: "CleanupService \<Rightarrow> string \<Rightarrow> CleanupService" where
  "ScheduleCleanup cs filePath =
     (if \<not> cc_Enabled (cs_config cs) then cs
      else cs\<lparr>cs_pendingFiles := cs_pendingFiles cs @ [filePath]\<rparr>)"

text \<open>
  The queue: its configuration, the heap array \<^verbatim>\<open>items\<close>, the statistics and the
  cleanup service (a pointer that may be nil).  The worker channels and the lock are not
  part of the state the functions below compute with.  A worker receives its item by
  value, so what it writes to the item stays in its own copy.
\<close>

record TransferQueue =
  tq_config :: QueueConfig
  tq_items :: "TransferItem list"
  tq_stats :: QueueStats
  tq_cleanup :: "CleanupService option"

subsection \<open>The heap of \<^verbatim>\<open>container/heap\<close> over \<^verbatim>\<open>PriorityQueue\<close>\<close>

text \<open>\<^verbatim>\<open>Less(i, j)\<close> is \<^verbatim>\<open>pq[i].Timestamp.After(pq[j].Timestamp)\<close>.\<close>

definition PriorityQueue_Less :: "TransferItem list \<Rightarrow> nat \<Rightarrow> nat \<Rightarrow> bool" where
  "PriorityQueue_Less pq i j = (ti_Timestamp (pq ! j) < ti_Timestamp (pq ! i))"

definition PriorityQueue_Swap :: "TransferItem list \<Rightarrow> nat \<Rightarrow> nat \<Rightarrow> TransferItem list" where
  "PriorityQueue_Swap pq i j = pq[i := pq ! j, j := pq ! i]"

text \<open>
  \<^verbatim>\<open>up\<close> of \<^verbatim>\<open>container/heap\<close>: the parent of \<^verbatim>\<open>j\<close> is \<^verbatim>\<open>(j - 1) / 2\<close>, which for
  \<^verbatim>\<open>j = 0\<close> is 0 in Go as it is on the naturals.  It is only called with an index inside
  the array.
\<close>

function heap_up :: "TransferItem list \<Rightarrow> nat \<Rightarrow> TransferItem list" where
  "heap_up h j =
     (let i = (j - 1) div 2 in
      if i = j \<or> \<not> PriorityQueue_Less h j i then h
      else heap_up (PriorityQueue_Swap h i j) i)"
  by pat_completeness auto
termination
  by (relation "measure (\<lambda>(h, j). j)") auto

text \<open>\<^verbatim>\<open>heap.Push\<close>: append, then \<^verbatim>\<open>up\<close> from the last index.\<close>

definition heap_Push :: "TransferItem list \<Rightarrow> TransferItem \<Rightarrow> TransferItem list" where
  "heap_Push h x = heap_up (h @ [x]) (length (h @ [x]) - 1)"

subsection \<open>\<^verbatim>\<open>processItem\<close>\<close>

text \<open>
  What the turn numbered \<^verbatim>\<open>attempt\<close> of the retry loop meets: whether the \<^verbatim>\<open>select\<close>
  takes the context's \<^verbatim>\<open>Done\<close> rather than the timer, and what \<^verbatim>\<open>TransferFile\<close>
  returns.
\<close>

record AttemptEnv =
  ae_cancelled :: bool
  ae_transfer :: "error option"

text \<open>
  The observable steps of a worker on one item: a backoff that ran to its end, a backoff
  cut short by cancellation, a call of \<^verbatim>\<open>TransferFile\<close>.
\<close>

datatype QueueEvent = Backoff Duration | Cancelled | Transfer

text \<open>\<^verbatim>\<open>time.Duration(attempt*attempt) * time.Second\<close>.\<close>

definition backoff :: "nat \<Rightarrow> Duration" where
  "backoff attempt = Duration_times (int (attempt * attempt)) Second"

text \<open>The success path, the same in both places of \<^verbatim>\<open>processItem\<close>.\<close>

definition completed :: "TransferQueue \<Rightarrow> TransferItem \<Rightarrow> TransferQueue \<times> TransferItem" where
  "completed tq item =
     (tq\<lparr>tq_stats := IncrementCompleted (tq_stats tq) (ti_FileSize item),
         tq_cleanup := (case tq_cleanup tq of
                          None \<Rightarrow> None
                        | Some cs \<Rightarrow> Some (ScheduleCleanup cs (ti_SourcePath item)))\<rparr>,
      item\<lparr>ti_Status := StatusCompleted\<rparr>)"

text \<open>
  The loop \<^verbatim>\<open>for attempt := 1; attempt <= maxRetries; attempt++\<close> on the queue, the
  worker's copy of the item and the events so far.  The test \<^verbatim>\<open>attempt > 0\<close> is kept as
  the source has it.
\<close>

function attempt_loop ::
  "(nat \<Rightarrow> AttemptEnv) \<Rightarrow> nat \<Rightarrow> nat \<Rightarrow> TransferQueue \<times> TransferItem \<times> QueueEvent list
     \<Rightarrow> TransferQueue \<times> TransferItem \<times> QueueEvent list" where
  "attempt_loop env maxRetries attempt (tq, item, events) =
     (if attempt \<le> maxRetries then
        (if attempt > 0 \<and> ae_cancelled (env attempt)
         then (tq, item\<lparr>ti_Status := StatusRetrying\<rparr>, events @ [Cancelled])
         else
           (let item1 = (if attempt > 0 then item\<lparr>ti_Status := StatusRetrying\<rparr> else item);
                events1 = (if attempt > 0 then events @ [Backoff (backoff attempt)] else events)
            in case ae_transfer (env attempt) of
                 None \<Rightarrow>
                   (case completed tq item1 of
                      (tq', item') \<Rightarrow> (tq', item', events1 @ [Transfer]))
               | Some err \<Rightarrow>
                   (let item2 = item1\<lparr>ti_LastError := Error err,
                                      ti_RetryCount := ti_RetryCount item1 + 1\<rparr>
                    in if attempt = maxRetries
                       then (tq\<lparr>tq_stats := IncrementFailed (tq_stats tq)\<rparr>,
                             item2\<lparr>ti_Status := StatusFailed\<rparr>, events1 @ [Transfer])
                       else attempt_loop env maxRetries (attempt + 1)
                              (tq, item2, events1 @ [Transfer]))))
      else (tq, item, events))"
  by pat_completeness auto
termination
  by (relation "measure (\<lambda>(env, maxRetries, attempt, st). maxRetries + 1 - attempt)") auto

text \<open>
  \<^verbatim>\<open>processItem\<close>.  \<^verbatim>\<open>fileExists\<close> is what \<^verbatim>\<open>nasService.FileExists\<close> returns, a flag and
  an error; with an error the transfer goes ahead.  The result is the queue, the worker's
  copy of the item when the function returns, and the events.
\<close>

definition processItem ::
  "bool \<times> error option \<Rightarrow> (nat \<Rightarrow> AttemptEnv) \<Rightarrow> TransferQueue \<Rightarrow> TransferItem
     \<Rightarrow> TransferQueue \<times> TransferItem \<times> QueueEvent list" where
  "processItem fileExists env tq item =
     (case fileExists of
        (exists, Some err) \<Rightarrow> attempt_loop env 3 1 (tq, item, [])
      | (exists, None) \<Rightarrow>
          if exists then (case completed tq item of (tq', item') \<Rightarrow> (tq', item', []))
          else attempt_loop env 3 1 (tq, item, []))"

subsection \<open>\<^verbatim>\<open>LoadState\<close>\<close>

text \<open>
  The decoded snapshot: \<^verbatim>\<open>Items\<close> is a slice of pointers, and a \<^verbatim>\<open>null\<close> entry of the
  file decodes to a nil pointer (\<^term>\<open>None\<close>); \<^verbatim>\<open>Stats\<close> is a pointer.  The snapshot's
  timestamp is only logged.
\<close>

record SavedState =
  ss_Items :: "TransferItem option list"
  ss_Stats :: "QueueStats option"

text \<open>
  What reading the persistence file gives: it does not exist, it cannot be read, its
  content does not decode, or it decodes to a snapshot.
\<close>

datatype StateFile = NotExist | ReadFails string | UnmarshalFails string | Snapshot SavedState

text \<open>The test of the loop in \<^verbatim>\<open>LoadState\<close>: \<^verbatim>\<open>item.Status == StatusPending || item.Status == StatusFailed\<close>.\<close>

definition restorable :: "TransferItem \<Rightarrow> bool" where
  "restorable item = (ti_Status item = StatusPending \<or> ti_Status item = StatusFailed)"

text \<open>
  The loop \<^verbatim>\<open>for _, item := range state.Items\<close> on the heap array.  Reading
  \<^verbatim>\<open>item.Status\<close> through a nil pointer panics.
\<close>

fun restore :: "TransferItem list \<Rightarrow> TransferItem option list \<Rightarrow> TransferItem list outcome" where
  "restore h [] = Returns h"
| "restore h (None # items) = Panic"
| "restore h (Some item # items) =
     (if restorable item then restore (heap_Push h item) items else restore h items)"

text \<open>\<^verbatim>\<open>LoadState\<close> returns the queue as it leaves it, and its error.\<close>

definition LoadState :: "StateFile \<Rightarrow> TransferQueue \<Rightarrow> (TransferQueue \<times> error option) outcome" where
  "LoadState file tq =
     (case file of
        NotExist \<Rightarrow> Returns (tq, None)
      | ReadFails msg \<Rightarrow> Returns (tq, Some (Err (''Failed to load queue state: '' @ msg)))
      | UnmarshalFails msg \<Rightarrow> Returns (tq, Some (Err (''Failed to load queue state: '' @ msg)))
      | Snapshot state \<Rightarrow>
          (case restore (tq_items tq) (ss_Items state) of
             Panic \<Rightarrow> Panic
           | Returns h \<Rightarrow>
               Returns
                 (tq\<lparr>tq_items := h,
                     tq_stats := (case ss_Stats state of None \<Rightarrow> tq_stats tq | Some stats \<Rightarrow> stats)\<rparr>,
                  None)))"

section \<open>Properties of the aggregation\<close>

lemma rank_of_listed:
  "rank_of ''1080p'' = 1" "rank_of ''720p'' = 2" "rank_of ''540p'' = 3" "rank_of ''480p'' = 4"
  "rank_of ''450p'' = 5" "rank_of ''360p'' = 6" "rank_of ''270p'' = 7" "rank_of ''240p'' = 8"
  by (simp_all add: rank_of_def rank_def)

lemma rank_of_unlisted: "rank l = None \<Longrightarrow> rank_of l = 0"
  by (simp add: rank_of_def)

lemma rank_of_listed_pos: "rank l = Some k \<Longrightarrow> 1 \<le> rank_of l \<and> rank_of l \<le> 8"
  by (auto simp: rank_of_def rank_def split: if_splits)

lemma AggregateSegmentInfo_snoc:
  "AggregateSegmentInfo (ch @ [x]) = aggregate_step (AggregateSegmentInfo ch) x"
  by (simp add: AggregateSegmentInfo_def)

lemma AggregateSegmentInfo_None_iff:
  "AggregateSegmentInfo ch n = None \<longleftrightarrow> n \<notin> si_SeqNo ` set ch"
proof (induction ch rule: rev_induct)
  case Nil
  show ?case by (simp add: AggregateSegmentInfo_def)
next
  case (snoc x ch)
  show ?case
    using snoc.IH
    by (auto simp: AggregateSegmentInfo_snoc aggregate_step_def split: option.splits)
qed

text \<open>
  The stored record for a sequence number sits at a position of the input where every
  earlier record of that number ranks strictly higher and every later one ranks at
  least as high: it is the first record of minimal rank.
\<close>

lemma AggregateSegmentInfo_position:
  "AggregateSegmentInfo ch n = Some r \<Longrightarrow>
     \<exists>pre post. ch = pre @ r # post \<and> si_SeqNo r = n
       \<and> (\<forall>s \<in> set pre. si_SeqNo s = n \<longrightarrow> rank_of (si_Resolution r) < rank_of (si_Resolution s))
       \<and> (\<forall>s \<in> set post. si_SeqNo s = n \<longrightarrow> rank_of (si_Resolution r) \<le> rank_of (si_Resolution s))"
proof (induction ch arbitrary: r rule: rev_induct)
  case Nil
  then show ?case by (simp add: AggregateSegmentInfo_def)
next
  case (snoc x ch)
  let ?m = "AggregateSegmentInfo ch"
  let ?rk = "\<lambda>s. rank_of (si_Resolution s)"
  have step: "aggregate_step ?m x n = Some r"
    using snoc.prems by (simp add: AggregateSegmentInfo_snoc)
  show ?case
  proof (cases "si_SeqNo x = n")
    case False
    then have "?m n = Some r"
      using step by (auto simp: aggregate_step_def split: option.splits if_splits)
    from snoc.IH [OF this] obtain pre post where
      ch: "ch = pre @ r # post" and rn: "si_SeqNo r = n"
      and pre: "\<forall>s \<in> set pre. si_SeqNo s = n \<longrightarrow> ?rk r < ?rk s"
      and post: "\<forall>s \<in> set post. si_SeqNo s = n \<longrightarrow> ?rk r \<le> ?rk s"
      by blast
    have "ch @ [x] = pre @ r # (post @ [x])" using ch by simp
    moreover have "\<forall>s \<in> set (post @ [x]). si_SeqNo s = n \<longrightarrow> ?rk r \<le> ?rk s"
      using post False by auto
    ultimately show ?thesis using rn pre by blast
  next
    case True
    show ?thesis
    proof (cases "?m n")
      case None
      then have rx: "r = x"
        using step True by (simp add: aggregate_step_def)
      have "n \<notin> si_SeqNo ` set ch"
        using None by (simp add: AggregateSegmentInfo_None_iff)
      then have "\<forall>s \<in> set ch. si_SeqNo s = n \<longrightarrow> ?rk r < ?rk s" by auto
      then show ?thesis using rx True by (intro exI [of _ ch] exI [of _ "[]"]) simp
    next
      case (Some cur)
      from snoc.IH [OF this] obtain pre post where
        ch: "ch = pre @ cur # post" and cn: "si_SeqNo cur = n"
        and pre: "\<forall>s \<in> set pre. si_SeqNo s = n \<longrightarrow> ?rk cur < ?rk s"
        and post: "\<forall>s \<in> set post. si_SeqNo s = n \<longrightarrow> ?rk cur \<le> ?rk s"
        by blast
      show ?thesis
      proof (cases "?rk x < ?rk cur")
        case True
        then have rx: "r = x"
          using step Some \<open>si_SeqNo x = n\<close> by (simp add: aggregate_step_def)
        have "\<forall>s \<in> set ch. si_SeqNo s = n \<longrightarrow> ?rk x < ?rk s"
          using ch cn pre post True by fastforce
        then show ?thesis
          using rx \<open>si_SeqNo x = n\<close> by (intro exI [of _ ch] exI [of _ "[]"]) simp
      next
        case False
        then have rc: "r = cur"
          using step Some \<open>si_SeqNo x = n\<close> by (simp add: aggregate_step_def)
        have "ch @ [x] = pre @ cur # (post @ [x])" using ch by simp
        moreover have "\<forall>s \<in> set (post @ [x]). si_SeqNo s = n \<longrightarrow> ?rk cur \<le> ?rk s"
          using post False by auto
        ultimately show ?thesis using rc cn pre by blast
      qed
    qed
  qed
qed

text \<open>
  C9.  For every sequence number received on the aggregation channel the map keeps a
  record of that number whose label has the smallest rank among all records received
  for it (the earliest such record, since a later record replaces the stored one only
  when it ranks strictly lower); a number never received has no entry.  The ranks are
  those of the fixed table; a label outside the table ranks 0, which is strictly below
  the rank of every listed label, so an unlisted label is never displaced by a listed
  one and displaces any listed one.
\<close>

theorem AggregateSegmentInfo_keeps_smallest_rank:
  "(AggregateSegmentInfo ch n = None \<longleftrightarrow> n \<notin> si_SeqNo ` set ch)
   \<and> (\<forall>r. AggregateSegmentInfo ch n = Some r \<longrightarrow>
         (\<exists>pre post. ch = pre @ r # post \<and> si_SeqNo r = n
            \<and> (\<forall>s \<in> set pre. si_SeqNo s = n \<longrightarrow> rank_of (si_Resolution r) < rank_of (si_Resolution s))
            \<and> (\<forall>s \<in> set post. si_SeqNo s = n \<longrightarrow> rank_of (si_Resolution r) \<le> rank_of (si_Resolution s)))
         \<and> (\<forall>s \<in> set ch. si_SeqNo s = n \<longrightarrow> rank_of (si_Resolution r) \<le> rank_of (si_Resolution s)))
   \<and> map rank_of [''1080p'', ''720p'', ''540p'', ''480p'', ''450p'', ''360p'', ''270p'', ''240p'']
       = [1, 2, 3, 4, 5, 6, 7, 8]
   \<and> (\<forall>l. rank l = None \<longrightarrow> rank_of l = 0)
   \<and> (\<forall>l l'. rank l = None \<and> rank l' \<noteq> None \<longrightarrow> rank_of l < rank_of l')"
proof (intro conjI allI impI)
  show "AggregateSegmentInfo ch n = None \<longleftrightarrow> n \<notin> si_SeqNo ` set ch"
    by (rule AggregateSegmentInfo_None_iff)
next
  fix r assume "AggregateSegmentInfo ch n = Some r"
  from AggregateSegmentInfo_position [OF this]
  show "\<exists>pre post. ch = pre @ r # post \<and> si_SeqNo r = n
       \<and> (\<forall>s \<in> set pre. si_SeqNo s = n \<longrightarrow> rank_of (si_Resolution r) < rank_of (si_Resolution s))
       \<and> (\<forall>s \<in> set post. si_SeqNo s = n \<longrightarrow> rank_of (si_Resolution r) \<le> rank_of (si_Resolution s))" .
next
  fix r assume "AggregateSegmentInfo ch n = Some r"
  from AggregateSegmentInfo_position [OF this] obtain pre post where
    "ch = pre @ r # post"
    "\<forall>s \<in> set pre. si_SeqNo s = n \<longrightarrow> rank_of (si_Resolution r) < rank_of (si_Resolution s)"
    "\<forall>s \<in> set post. si_SeqNo s = n \<longrightarrow> rank_of (si_Resolution r) \<le> rank_of (si_Resolution s)"
    by blast
  then show "\<forall>s \<in> set ch. si_SeqNo s = n \<longrightarrow> rank_of (si_Resolution r) \<le> rank_of (si_Resolution s)"
    by fastforce
next
  show "map rank_of [''1080p'', ''720p'', ''540p'', ''480p'', ''450p'', ''360p'', ''270p'', ''240p'']
       = [1, 2, 3, 4, 5, 6, 7, 8]"
    by (simp add: rank_of_listed)
next
  fix l assume "rank l = None"
  then show "rank_of l = 0" by (rule rank_of_unlisted)
next
  fix l l' assume "rank l = None \<and> rank l' \<noteq> None"
  then obtain k where "rank l = None" "rank l' = Some k" by auto
  then show "rank_of l < rank_of l'"
    using rank_of_unlisted [of l] rank_of_listed_pos [of l' k] by simp
qed

theorem AggregateSegmentInfo_keeps_smallest_rank_witness:
  "AggregateSegmentInfo
     [\<lparr>si_Name = ''seg_1001.ts'', si_SeqNo = 1001, si_Resolution = ''720p''\<rparr>,
      \<lparr>si_Name = ''seg_1001.ts'', si_SeqNo = 1001, si_Resolution = ''1080p''\<rparr>,
      \<lparr>si_Name = ''seg_1002.ts'', si_SeqNo = 1002, si_Resolution = ''480p''\<rparr>,
      \<lparr>si_Name = ''seg_1001.ts'', si_SeqNo = 1001, si_Resolution = ''540p''\<rparr>] 1001
     = Some \<lparr>si_Name = ''seg_1001.ts'', si_SeqNo = 1001, si_Resolution = ''1080p''\<rparr>
   \<and> rank_of ''1080p'' \<le> rank_of ''720p'' \<and> rank_of ''1080p'' \<le> rank_of ''540p''
   \<and> rank ''unknown'' = None \<and> rank ''240p'' \<noteq> None
   \<and> rank_of ''unknown'' = 0 \<and> rank_of ''unknown'' < rank_of ''240p''"
proof -
  let ?ch = "[\<lparr>si_Name = ''seg_1001.ts'', si_SeqNo = 1001, si_Resolution = ''720p''\<rparr>,
      \<lparr>si_Name = ''seg_1001.ts'', si_SeqNo = 1001, si_Resolution = ''1080p''\<rparr>,
      \<lparr>si_Name = ''seg_1002.ts'', si_SeqNo = 1002, si_Resolution = ''480p''\<rparr>,
      \<lparr>si_Name = ''seg_1001.ts'', si_SeqNo = 1001, si_Resolution = ''540p''\<rparr>]"
  let ?r = "\<lparr>si_Name = ''seg_1001.ts'', si_SeqNo = 1001, si_Resolution = ''1080p''\<rparr>"
  have e: "AggregateSegmentInfo ?ch 1001 = Some ?r"
    by (simp add: AggregateSegmentInfo_def aggregate_step_def rank_of_def rank_def)
  have u: "rank ''unknown'' = None" and l: "rank ''240p'' \<noteq> None"
    by (simp_all add: rank_def)
  note t = AggregateSegmentInfo_keeps_smallest_rank [of ?ch 1001]
  have a: "\<forall>s \<in> set ?ch. si_SeqNo s = 1001 \<longrightarrow> rank_of (si_Resolution ?r) \<le> rank_of (si_Resolution s)"
    using t e by blast
  have a1: "rank_of ''1080p'' \<le> rank_of ''720p''" and a2: "rank_of ''1080p'' \<le> rank_of ''540p''"
    using a by simp_all
  have b: "rank_of ''unknown'' = 0" using t u by blast
  have c: "rank_of ''unknown'' < rank_of ''240p''" using t u l by blast
  show ?thesis using e a1 a2 b c u l by simp
qed

section \<open>Properties of the directory scan\<close>

lemma slice_Panic_iff: "slice s lo hi = Panic \<longleftrightarrow> \<not> (lo \<le> hi \<and> hi \<le> length s)"
  by (simp add: slice_def)

text \<open>
  The scan dies exactly when some regular file with the \<^verbatim>\<open>.ts\<close> suffix has a name of
  fewer than ten bytes; otherwise every file is either sent or skipped.
\<close>

lemma parse_files_Panic_iff:
  "parse_files resolution files = Panic \<longleftrightarrow>
     (\<exists>file \<in> set files. \<not> de_IsDir file \<and> HasSuffix (ToLower (de_Name file)) ''.ts''
        \<and> length (de_Name file) < 10)"
proof (induction files)
  case Nil
  show ?case by simp
next
  case (Cons f fs)
  show ?case
  proof (cases "\<not> de_IsDir f \<and> HasSuffix (ToLower (de_Name f)) ''.ts''")
    case False
    then show ?thesis using Cons.IH by auto
  next
    case ts: True
    show ?thesis
    proof (cases "length (de_Name f) < 10")
      case True
      then have "slice (de_Name f) 6 10 = Panic" by (simp add: slice_def)
      then show ?thesis using True ts by simp
    next
      case False
      then obtain sub where "slice (de_Name f) 6 10 = Returns sub"
        by (simp add: slice_def)
      then show ?thesis
        using False Cons.IH by (auto split: sum.splits outcome.splits)
    qed
  qed
qed

text \<open>
  C10.  The scan takes the sequence number from \<^verbatim>\<open>name[6:10]\<close> and skips a file whose
  substring does not parse, but the slice itself is unguarded: on a \<^verbatim>\<open>.ts\<close> file whose
  name is shorter than ten bytes, here \<^verbatim>\<open>seg1.ts\<close>, the enumeration does not continue
  but ends in a run-time panic.  A ten-byte name whose substring is not a number is
  skipped and the scan goes on.
\<close>

theorem ParseResolutionDirectory_short_name_panics:
  "ParseResolutionDirectory ''1080p''
     (ReadDirOk [\<lparr>de_Name = ''seg1.ts'', de_IsDir = False\<rparr>,
                 \<lparr>de_Name = ''seg_001234.ts'', de_IsDir = False\<rparr>]) = Panic
   \<and> ParseResolutionDirectory ''1080p''
     (ReadDirOk [\<lparr>de_Name = ''seg_1001.ts'', de_IsDir = False\<rparr>,
                 \<lparr>de_Name = ''seg_001234.ts'', de_IsDir = False\<rparr>])
     = Returns [\<lparr>si_Name = ''seg_001234.ts'', si_SeqNo = 1234, si_Resolution = ''1080p''\<rparr>]"
  by code_simp

section \<open>Properties of the manifest writer\<close>

text \<open>
  A call for a sequence number that is already indexed leaves the slice of segments as it
  was: the write goes to the cell behind the index only.
\<close>

lemma AddOrUpdateSegment_Segments:
  "mw_Segments (AddOrUpdateSegment m seqNo resolution) =
     (if mw_Index m seqNo = None
      then mw_Segments m @ [\<lparr>mi_SeqNo = seqNo, mi_Resolution = resolution\<rparr>]
      else mw_Segments m)"
  by (auto simp: AddOrUpdateSegment_def Let_def split: option.splits)

lemma AddOrUpdateSegment_known_WriteManifest:
  "mw_Index m seqNo \<noteq> None \<Longrightarrow>
     WriteManifest (AddOrUpdateSegment m seqNo resolution) env = WriteManifest m env"
  by (auto simp: WriteManifest_def AddOrUpdateSegment_Segments)

lemma AddOrUpdateSegment_Index_dom:
  "dom (mw_Index (AddOrUpdateSegment m seqNo resolution)) = insert seqNo (dom (mw_Index m))"
  by (auto simp: AddOrUpdateSegment_def Let_def split: option.splits if_splits)

text \<open>
  C2.  The repository's own test case: sequence number \<^verbatim>\<open>1001\<close> is added with label
  \<^verbatim>\<open>1080p\<close> and then with the greater label \<^verbatim>\<open>1440p\<close>.  The cell behind the index
  is upgraded to \<^verbatim>\<open>1440p\<close>, but the entry that \<^verbatim>\<open>WriteManifest\<close> serialises still
  carries \<^verbatim>\<open>1080p\<close>, the first label, not the maximum.
\<close>

theorem WriteManifest_keeps_first_label:
  "WriteManifest
     (AddOrUpdateSegment (AddOrUpdateSegment (NewManifestWriter ''test.json'') ''1001'' ''1080p'')
        ''1001'' ''1440p'') WriteOk
     = Some [\<lparr>mi_SeqNo = ''1001'', mi_Resolution = ''1080p''\<rparr>]
   \<and> mw_cells
     (AddOrUpdateSegment (AddOrUpdateSegment (NewManifestWriter ''test.json'') ''1001'' ''1080p'')
        ''1001'' ''1440p'')
     = [\<lparr>mi_SeqNo = ''1001'', mi_Resolution = ''1440p''\<rparr>]
   \<and> (''1080p'' :: string) < ''1440p''"
  by code_simp

section \<open>Properties of the segment fetcher\<close>











section \<open>Properties of the variant poller\<close>

declare decimal.simps [simp del]

lemma LoadMediaPlaylist_error_nil:
  "LoadMediaPlaylist fetch = Returns (playlist, err) \<Longrightarrow> err \<noteq> None \<longleftrightarrow> playlist = None"
  by (auto simp: LoadMediaPlaylist_def split: Fetch.splits Decoded.splits)

text \<open>Every turn whose fetch does not yield a media playlist ends in a panic.\<close>

lemma iteration_failed_fetch:
  "\<not> t_cancelled t \<Longrightarrow> (\<forall>pl. t_fetch t \<noteq> Body (DecodedMedia pl)) \<Longrightarrow>
     iteration variant st t = (st, Panicked)"
  by (auto simp: iteration_def LoadMediaPlaylist_def split: Fetch.splits Decoded.splits)

text \<open>
  C1.  A poller whose first playlist fetch fails with a transport error: the turn neither
  logs nor waits, the run ends in a panic (the read \<^verbatim>\<open>playlist.SeqNo\<close> through the nil
  pointer), and the second turn, whose fetch would succeed, is never made.
\<close>

theorem VariantDownloader_failed_fetch_panics:
  "VariantDownloader
     \<lparr>sv_URL = ''https://example.com/hi.m3u8'', sv_Bandwidth = 6000000, sv_ID = 0,
      sv_Resolution = ''1080p'', sv_OutputDir = ''data/event/1080p''\<rparr>
     [\<lparr>t_cancelled = False, t_fetch = GetFails ''connection refused'', t_wait_cancelled = False\<rparr>,
      \<lparr>t_cancelled = False,
       t_fetch = Body (DecodedMedia \<lparr>pl_SeqNo = 7, pl_Segments = [], pl_Closed = False\<rparr>),
       t_wait_cancelled = False\<rparr>]
   = (\<lparr>p_ticker = RefreshDelay, p_seen = {}, p_spawned = [], p_log = [], p_waits = []\<rparr>, Panicked)"
  by (simp add: VariantDownloader_def new_poller_def iteration_def LoadMediaPlaylist_def)

lemma iteration_ticker: "p_ticker (fst (iteration variant st t)) = p_ticker st"
  by (auto simp: iteration_def waitTick_def Let_def split: prod.splits option.splits outcome.splits)

lemma iteration_waits:
  "set (p_waits (fst (iteration variant st t))) \<subseteq> insert (p_ticker st) (set (p_waits st))"
  by (auto simp: iteration_def waitTick_def Let_def split: prod.splits option.splits outcome.splits)

lemma poll_ticker_waits:
  "p_ticker (fst (poll variant st ticks)) = p_ticker st
   \<and> set (p_waits (fst (poll variant st ticks))) \<subseteq> insert (p_ticker st) (set (p_waits st))"
proof (induction ticks arbitrary: st)
  case Nil
  show ?case by auto
next
  case (Cons t ticks)
  obtain st' status where it: "iteration variant st t = (st', status)"
    by (cases "iteration variant st t")
  have a: "p_ticker st' = p_ticker st"
    using iteration_ticker [of variant st t] it by simp
  have b: "set (p_waits st') \<subseteq> insert (p_ticker st) (set (p_waits st))"
    using iteration_waits [of variant st t] it by simp
  show ?case
  proof (cases status)
    case Polling
    then have "poll variant st (t # ticks) = poll variant st' ticks"
      using it by simp
    then show ?thesis
      using Cons.IH [of st'] a b by (auto simp del: poll.simps)
  next
    case Returned
    then show ?thesis using it a b by simp
  next
    case Panicked
    then show ?thesis using it a b by simp
  qed
qed

text \<open>
  C4.  The ticker of every poller has the period \<^verbatim>\<open>constants.RefreshDelay\<close> taken as a
  \<^verbatim>\<open>time.Duration\<close>, which is 3 nanoseconds, and every wait between two refreshes is a
  wait on that ticker; two refreshes of an open playlist wait twice on it.  The
  configuration's refresh delay, 3 seconds by default, is not what the poller waits:
  3 seconds are 3000000000 nanoseconds.
\<close>

theorem VariantDownloader_ticker_three_nanoseconds:
  "p_ticker (fst (VariantDownloader variant ticks)) = 3 * Nanosecond
   \<and> set (p_waits (fst (VariantDownloader variant ticks))) \<subseteq> {3 * Nanosecond}
   \<and> VariantDownloader variant
        [\<lparr>t_cancelled = False,
          t_fetch = Body (DecodedMedia \<lparr>pl_SeqNo = 7, pl_Segments = [], pl_Closed = False\<rparr>),
          t_wait_cancelled = False\<rparr>,
         \<lparr>t_cancelled = False,
          t_fetch = Body (DecodedMedia \<lparr>pl_SeqNo = 7, pl_Segments = [], pl_Closed = False\<rparr>),
          t_wait_cancelled = False\<rparr>]
      = (\<lparr>p_ticker = 3 * Nanosecond, p_seen = {}, p_spawned = [], p_log = [],
          p_waits = [3 * Nanosecond, 3 * Nanosecond]\<rparr>, Polling)
   \<and> Core_RefreshDelay None = 3 * Second
   \<and> 3 * Second = 3000000000 * Nanosecond
   \<and> p_ticker (fst (VariantDownloader variant ticks)) \<noteq> Core_RefreshDelay None"
proof -
  have a: "p_ticker (fst (VariantDownloader variant ticks)) = 3 * Nanosecond"
    using poll_ticker_waits [of variant new_poller ticks]
    by (simp add: VariantDownloader_def new_poller_def RefreshDelay_def Nanosecond_def)
  have b: "set (p_waits (fst (VariantDownloader variant ticks))) \<subseteq> {3 * Nanosecond}"
    using poll_ticker_waits [of variant new_poller ticks]
    by (simp add: VariantDownloader_def new_poller_def RefreshDelay_def Nanosecond_def)
  have c: "VariantDownloader variant
        [\<lparr>t_cancelled = False,
          t_fetch = Body (DecodedMedia \<lparr>pl_SeqNo = 7, pl_Segments = [], pl_Closed = False\<rparr>),
          t_wait_cancelled = False\<rparr>,
         \<lparr>t_cancelled = False,
          t_fetch = Body (DecodedMedia \<lparr>pl_SeqNo = 7, pl_Segments = [], pl_Closed = False\<rparr>),
          t_wait_cancelled = False\<rparr>]
      = (\<lparr>p_ticker = 3 * Nanosecond, p_seen = {}, p_spawned = [], p_log = [],
          p_waits = [3 * Nanosecond, 3 * Nanosecond]\<rparr>, Polling)"
    by (simp add: VariantDownloader_def new_poller_def RefreshDelay_def Nanosecond_def
        iteration_def LoadMediaPlaylist_def waitTick_def)
  have d: "Core_RefreshDelay None = 3 * Second"
    by (simp add: Core_RefreshDelay_def defaultConfig_Core_RefreshDelay_def)
  have e: "3 * Second = 3000000000 * Nanosecond"
    by (simp add: Second_def Millisecond_def)
  have f: "p_ticker (fst (VariantDownloader variant ticks)) \<noteq> Core_RefreshDelay None"
    unfolding a d by (simp add: Second_def Millisecond_def Nanosecond_def)
  from a b c d e f show ?thesis by (intro conjI)
qed

lemma segment_loop_inv:
  "segment_loop variant (seen, spawned, seq) segs = (seen', spawned', seq') \<Longrightarrow>
   distinct (map Key spawned) \<Longrightarrow> Key ` set spawned = seen \<Longrightarrow>
     distinct (map Key spawned') \<and> Key ` set spawned' = seen'"
proof (induction variant "(seen, spawned, seq)" segs arbitrary: seen spawned seq
    rule: segment_loop.induct)
  case (1 variant seen spawned seq)
  then show ?case by simp
next
  case (2 variant seen spawned seq segs)
  then show ?case by simp
next
  case (3 variant seen spawned seq seg segs)
  let ?job = "\<lparr>sj_URI = ms_URI seg, sj_Seq = seq, sj_VariantID = sv_ID variant,
                  sj_Variant = variant\<rparr>"
  show ?case
  proof (cases "Key ?job \<in> seen")
    case True
    then have "segment_loop variant (seen, spawned, seq + 1) segs = (seen', spawned', seq')"
      using "3.prems"(1) by (simp add: Let_def)
    from "3.hyps"(1) [OF refl refl True this "3.prems"(2) "3.prems"(3)]
    show ?thesis .
  next
    case False
    then have run: "segment_loop variant (insert (Key ?job) seen, spawned @ [?job], seq + 1) segs
        = (seen', spawned', seq')"
      using "3.prems"(1) by (simp add: Let_def)
    have d: "distinct (map Key (spawned @ [?job]))"
      using False "3.prems"(2) "3.prems"(3) by auto
    have e: "Key ` set (spawned @ [?job]) = insert (Key ?job) seen"
      using "3.prems"(3) by auto
    from "3.hyps"(2) [OF refl refl False run d e]
    show ?thesis .
  qed
qed

lemma segment_loop_grows:
  "segment_loop variant (seen, spawned, seq) segs = (seen', spawned', seq') \<Longrightarrow>
     seen' = seen \<union> Key ` set (playlist_jobs variant seq segs)
     \<and> (\<exists>new. spawned' = spawned @ new)"
proof (induction variant "(seen, spawned, seq)" segs arbitrary: seen spawned seq
    rule: segment_loop.induct)
  case (1 variant seen spawned seq)
  then show ?case by simp
next
  case (2 variant seen spawned seq segs)
  then show ?case by simp
next
  case (3 variant seen spawned seq seg segs)
  let ?job = "\<lparr>sj_URI = ms_URI seg, sj_Seq = seq, sj_VariantID = sv_ID variant,
                  sj_Variant = variant\<rparr>"
  show ?case
  proof (cases "Key ?job \<in> seen")
    case True
    then have "segment_loop variant (seen, spawned, seq + 1) segs = (seen', spawned', seq')"
      using "3.prems"(1) by (simp add: Let_def)
    from "3.hyps"(1) [OF refl refl True this]
    show ?thesis using True by auto
  next
    case False
    then have run: "segment_loop variant (insert (Key ?job) seen, spawned @ [?job], seq + 1) segs
        = (seen', spawned', seq')"
      using "3.prems"(1) by (simp add: Let_def)
    from "3.hyps"(2) [OF refl refl False run]
    show ?thesis by auto
  qed
qed

lemma iteration_not_fetched:
  "t_cancelled t \<or> (\<forall>pl. t_fetch t \<noteq> Body (DecodedMedia pl)) \<Longrightarrow>
     fst (iteration variant st t) = st"
  by (auto simp: iteration_def LoadMediaPlaylist_def split: Fetch.splits Decoded.splits)

lemma iteration_fetched:
  assumes "\<not> t_cancelled t" and "t_fetch t = Body (DecodedMedia pl)"
    and "segment_loop variant (p_seen st, p_spawned st, pl_SeqNo pl) (pl_Segments pl)
           = (seen, spawned, seq')"
  shows "p_seen (fst (iteration variant st t)) = seen"
    and "p_spawned (fst (iteration variant st t)) = spawned"
  using assms by (auto simp: iteration_def LoadMediaPlaylist_def waitTick_def Let_def)

lemma iteration_inv:
  assumes "distinct (map Key (p_spawned st))" and "Key ` set (p_spawned st) = p_seen st"
  shows "distinct (map Key (p_spawned (fst (iteration variant st t))))
     \<and> Key ` set (p_spawned (fst (iteration variant st t))) = p_seen (fst (iteration variant st t))"
proof (cases "t_cancelled t \<or> (\<forall>pl. t_fetch t \<noteq> Body (DecodedMedia pl))")
  case True
  then show ?thesis using assms by (simp add: iteration_not_fetched)
next
  case False
  then obtain pl where nc: "\<not> t_cancelled t" and f: "t_fetch t = Body (DecodedMedia pl)"
    by blast
  obtain seen spawned seq' where
    sl: "segment_loop variant (p_seen st, p_spawned st, pl_SeqNo pl) (pl_Segments pl)
       = (seen, spawned, seq')"
    by (cases "segment_loop variant (p_seen st, p_spawned st, pl_SeqNo pl) (pl_Segments pl)")
  from segment_loop_inv [OF sl assms]
  show ?thesis by (simp add: iteration_fetched [OF nc f sl])
qed

lemma iteration_grows:
  "p_seen st \<subseteq> p_seen (fst (iteration variant st t))
   \<and> (\<exists>new. p_spawned (fst (iteration variant st t)) = p_spawned st @ new)"
proof (cases "t_cancelled t \<or> (\<forall>pl. t_fetch t \<noteq> Body (DecodedMedia pl))")
  case True
  then show ?thesis by (simp add: iteration_not_fetched)
next
  case False
  then obtain pl where nc: "\<not> t_cancelled t" and f: "t_fetch t = Body (DecodedMedia pl)"
    by blast
  obtain seen spawned seq' where
    sl: "segment_loop variant (p_seen st, p_spawned st, pl_SeqNo pl) (pl_Segments pl)
       = (seen, spawned, seq')"
    by (cases "segment_loop variant (p_seen st, p_spawned st, pl_SeqNo pl) (pl_Segments pl)")
  from segment_loop_grows [OF sl]
  show ?thesis by (simp add: iteration_fetched [OF nc f sl])
qed

lemma iteration_observes:
  assumes "\<not> t_cancelled t" and "t_fetch t = Body (DecodedMedia pl)"
  shows "p_seen (fst (iteration variant st t)) =
     p_seen st \<union> Key ` set (playlist_jobs variant (pl_SeqNo pl) (pl_Segments pl))"
proof -
  obtain seen spawned seq' where
    sl: "segment_loop variant (p_seen st, p_spawned st, pl_SeqNo pl) (pl_Segments pl)
       = (seen, spawned, seq')"
    by (cases "segment_loop variant (p_seen st, p_spawned st, pl_SeqNo pl) (pl_Segments pl)")
  from segment_loop_grows [OF sl]
  show ?thesis by (simp add: iteration_fetched [OF assms sl])
qed

lemma poll_Cons:
  "poll variant st (t # ticks) =
     (if snd (iteration variant st t) = Polling
      then poll variant (fst (iteration variant st t)) ticks
      else iteration variant st t)"
  by (cases "iteration variant st t"; cases "snd (iteration variant st t)") auto

lemma poll_inv:
  "distinct (map Key (p_spawned st)) \<Longrightarrow> Key ` set (p_spawned st) = p_seen st \<Longrightarrow>
     distinct (map Key (p_spawned (fst (poll variant st ticks))))
     \<and> Key ` set (p_spawned (fst (poll variant st ticks))) = p_seen (fst (poll variant st ticks))"
proof (induction ticks arbitrary: st)
  case Nil
  then show ?case by simp
next
  case (Cons t ticks)
  have step: "distinct (map Key (p_spawned (fst (iteration variant st t))))"
    "Key ` set (p_spawned (fst (iteration variant st t))) = p_seen (fst (iteration variant st t))"
    using iteration_inv [OF Cons.prems, of variant t] by blast+
  show ?case
  proof (cases "snd (iteration variant st t) = Polling")
    case True
    have "poll variant st (t # ticks) = poll variant (fst (iteration variant st t)) ticks"
      by (subst poll_Cons) (simp add: True)
    then show ?thesis
      using Cons.IH [OF step] by (simp del: poll.simps)
  next
    case False
    have "poll variant st (t # ticks) = iteration variant st t"
      by (subst poll_Cons) (simp add: False)
    then show ?thesis using step by (simp del: poll.simps)
  qed
qed

lemma poll_grows:
  "p_seen st \<subseteq> p_seen (fst (poll variant st ticks))
   \<and> (\<exists>new. p_spawned (fst (poll variant st ticks)) = p_spawned st @ new)"
proof (induction ticks arbitrary: st)
  case Nil
  show ?case by simp
next
  case (Cons t ticks)
  let ?st = "fst (iteration variant st t)"
  obtain new1 where s1: "p_seen st \<subseteq> p_seen ?st" and n1: "p_spawned ?st = p_spawned st @ new1"
    using iteration_grows [of st variant t] by blast
  show ?case
  proof (cases "snd (iteration variant st t) = Polling")
    case True
    have eq: "poll variant st (t # ticks) = poll variant ?st ticks"
      by (subst poll_Cons) (simp add: True)
    obtain new2 where s2: "p_seen ?st \<subseteq> p_seen (fst (poll variant ?st ticks))"
      and n2: "p_spawned (fst (poll variant ?st ticks)) = p_spawned ?st @ new2"
      using Cons.IH [of ?st] by blast
    have "p_spawned (fst (poll variant ?st ticks)) = p_spawned st @ (new1 @ new2)"
      using n1 n2 by simp
    then have "\<exists>new. p_spawned (fst (poll variant ?st ticks)) = p_spawned st @ new" ..
    moreover have "p_seen st \<subseteq> p_seen (fst (poll variant ?st ticks))"
      using s1 s2 by (rule subset_trans)
    ultimately show ?thesis unfolding eq by (rule_tac conjI)
  next
    case False
    have eq: "poll variant st (t # ticks) = iteration variant st t"
      by (subst poll_Cons) (simp add: False)
    have "\<exists>new. p_spawned ?st = p_spawned st @ new" using n1 ..
    with s1 show ?thesis unfolding eq by (rule_tac conjI)
  qed
qed

lemma poll_append:
  "poll variant st (ticks @ rest) =
     (if snd (poll variant st ticks) = Polling
      then poll variant (fst (poll variant st ticks)) rest
      else poll variant st ticks)"
proof (induction ticks arbitrary: st)
  case Nil
  show ?case by simp
next
  case (Cons t ticks)
  show ?case
  proof (cases "snd (iteration variant st t) = Polling")
    case True
    have a: "poll variant st (t # ticks @ rest) = poll variant (fst (iteration variant st t)) (ticks @ rest)"
      by (subst poll_Cons) (simp add: True)
    have b: "poll variant st (t # ticks) = poll variant (fst (iteration variant st t)) ticks"
      by (subst poll_Cons) (simp add: True)
    show ?thesis
      unfolding append_Cons a b by (rule Cons.IH)
  next
    case False
    have a: "poll variant st (t # ticks @ rest) = iteration variant st t"
      by (subst poll_Cons) (simp add: False)
    have b: "poll variant st (t # ticks) = iteration variant st t"
      by (subst poll_Cons) (simp add: False)
    show ?thesis
      unfolding append_Cons a b using False by simp
  qed
qed


lemma count_list_distinct:
  "distinct xs \<Longrightarrow> count_list xs k = (if k \<in> set xs then 1 else 0)"
  by (induction xs) auto

lemma poll_extends:
  "p_seen (fst (poll variant st ticks)) \<subseteq> p_seen (fst (poll variant st (ticks @ rest)))
   \<and> (\<exists>new. p_spawned (fst (poll variant st (ticks @ rest)))
          = p_spawned (fst (poll variant st ticks)) @ new)"
proof (cases "snd (poll variant st ticks) = Polling")
  case True
  then have "poll variant st (ticks @ rest) = poll variant (fst (poll variant st ticks)) rest"
    by (simp add: poll_append)
  then show ?thesis
    using poll_grows [of "fst (poll variant st ticks)" variant rest] by simp
next
  case False
  then have "poll variant st (ticks @ rest) = poll variant st ticks"
    by (simp add: poll_append)
  then show ?thesis by simp
qed

lemma new_poller_inv:
  "distinct (map Key (p_spawned new_poller))" "Key ` set (p_spawned new_poller) = p_seen new_poller"
  by (simp_all add: new_poller_def)

lemma VariantDownloader_inv:
  "distinct (map Key (spawned_after variant ticks))"
  "Key ` set (spawned_after variant ticks) = seen_after variant ticks"
  using poll_inv [OF new_poller_inv, of variant ticks] by (simp_all add: VariantDownloader_def)

lemma VariantDownloader_new_tasks:
  "\<exists>new. spawned_after variant (ticks @ rest) = spawned_after variant ticks @ new
     \<and> distinct (map Key new)
     \<and> Key ` set new = seen_after variant (ticks @ rest) - seen_after variant ticks"
proof -
  obtain new where n: "spawned_after variant (ticks @ rest) = spawned_after variant ticks @ new"
    using poll_extends [of variant new_poller ticks rest] by (auto simp: VariantDownloader_def)
  have d: "distinct (map Key (spawned_after variant ticks @ new))"
    using VariantDownloader_inv(1) [of variant "ticks @ rest"] by (simp only: n)
  have s: "Key ` set (spawned_after variant ticks @ new) = seen_after variant (ticks @ rest)"
    using VariantDownloader_inv(2) [of variant "ticks @ rest"] by (simp only: n)
  have "distinct (map Key new)" using d by simp
  moreover have "Key ` set new = seen_after variant (ticks @ rest) - seen_after variant ticks"
  proof -
    have u: "seen_after variant (ticks @ rest) = seen_after variant ticks \<union> Key ` set new"
      using s VariantDownloader_inv(2) [of variant ticks] by (simp add: image_Un)
    have "seen_after variant ticks \<inter> Key ` set new = {}"
      using d VariantDownloader_inv(2) [of variant ticks] by simp
    with u show ?thesis by blast
  qed
  ultimately show ?thesis using n by blast
qed

lemma VariantDownloader_observes:
  assumes "snd (VariantDownloader variant ticks) = Polling"
    and "\<not> t_cancelled t" and "t_fetch t = Body (DecodedMedia pl)"
  shows "Key ` set (playlist_jobs variant (pl_SeqNo pl) (pl_Segments pl))
           \<subseteq> seen_after variant (ticks @ t # rest)"
proof -
  let ?st = "fst (poll variant new_poller ticks)"
  have p: "snd (poll variant new_poller ticks) = Polling"
    using assms(1) by (simp add: VariantDownloader_def)
  have "poll variant new_poller (ticks @ [t]) = poll variant ?st [t]"
    using p by (simp add: poll_append)
  moreover have "fst (poll variant ?st [t]) = fst (iteration variant ?st t)"
    by (subst poll_Cons) simp
  ultimately have "p_seen (fst (poll variant new_poller (ticks @ [t]))) = p_seen (fst (iteration variant ?st t))"
    by (simp del: poll.simps)
  then have "Key ` set (playlist_jobs variant (pl_SeqNo pl) (pl_Segments pl))
      \<subseteq> p_seen (fst (poll variant new_poller (ticks @ [t])))"
    using iteration_observes [OF assms(2) assms(3), of variant ?st] by simp
  moreover have "p_seen (fst (poll variant new_poller (ticks @ [t])))
      \<subseteq> p_seen (fst (poll variant new_poller ((ticks @ [t]) @ rest)))"
    using poll_extends [of variant new_poller "ticks @ [t]" rest] by blast
  ultimately show ?thesis by (simp add: VariantDownloader_def)
qed

text \<open>
  C3.  At every moment of a poller's run, a key has exactly one download task when it is
  in the seen-set and none otherwise.  As the run goes on the seen-set only grows, the
  tasks already started stay, and the tasks added have pairwise different keys, which are
  exactly the keys newly put into the seen-set: so no task is added for a key that was
  already seen.  Every key of a playlist that a turn of the loop fetches is in the
  seen-set from then on, hence has exactly one task.
\<close>

theorem VariantDownloader_downloads_each_key_once:
  "(\<forall>k. count_list (map Key (spawned_after variant ticks)) k
          = (if k \<in> seen_after variant ticks then 1 else 0))
   \<and> seen_after variant ticks \<subseteq> seen_after variant (ticks @ rest)
   \<and> (\<exists>new. spawned_after variant (ticks @ rest) = spawned_after variant ticks @ new
         \<and> distinct (map Key new)
         \<and> Key ` set new = seen_after variant (ticks @ rest) - seen_after variant ticks)
   \<and> (snd (VariantDownloader variant ticks) = Polling \<longrightarrow> \<not> t_cancelled t \<longrightarrow>
        t_fetch t = Body (DecodedMedia pl) \<longrightarrow>
        Key ` set (playlist_jobs variant (pl_SeqNo pl) (pl_Segments pl))
          \<subseteq> seen_after variant (ticks @ t # rest))"
proof -
  have a: "\<forall>k. count_list (map Key (spawned_after variant ticks)) k
          = (if k \<in> seen_after variant ticks then 1 else 0)"
    using count_list_distinct [OF VariantDownloader_inv(1) [of variant ticks]]
      VariantDownloader_inv(2) [of variant ticks] by simp
  have b: "seen_after variant ticks \<subseteq> seen_after variant (ticks @ rest)"
    using poll_extends [of variant new_poller ticks rest] by (simp add: VariantDownloader_def)
  note c = VariantDownloader_new_tasks [of variant ticks rest]
  have d: "snd (VariantDownloader variant ticks) = Polling \<longrightarrow> \<not> t_cancelled t \<longrightarrow>
        t_fetch t = Body (DecodedMedia pl) \<longrightarrow>
        Key ` set (playlist_jobs variant (pl_SeqNo pl) (pl_Segments pl))
          \<subseteq> seen_after variant (ticks @ t # rest)"
    using VariantDownloader_observes by blast
  from a b c d show ?thesis by (intro conjI)
qed

text \<open>
  The theorem at a run of two refreshes: the first playlist starts at sequence number 10
  with \<^verbatim>\<open>a.ts\<close> and \<^verbatim>\<open>b.ts\<close>, the second at 11 with \<^verbatim>\<open>b.ts\<close> and \<^verbatim>\<open>c.ts\<close>.  The key
  \<^verbatim>\<open>11:b.ts\<close> is met in both and has one download task.
\<close>

theorem VariantDownloader_downloads_each_key_once_witness:
  "snd (VariantDownloader
     \<lparr>sv_URL = ''https://example.com/hi.m3u8'', sv_Bandwidth = 6000000, sv_ID = 0,
      sv_Resolution = ''1080p'', sv_OutputDir = ''data/event/1080p''\<rparr>
     [\<lparr>t_cancelled = False,
       t_fetch = Body (DecodedMedia \<lparr>pl_SeqNo = 10,
          pl_Segments = [Some \<lparr>ms_URI = ''a.ts''\<rparr>, Some \<lparr>ms_URI = ''b.ts''\<rparr>], pl_Closed = False\<rparr>),
       t_wait_cancelled = False\<rparr>]) = Polling
   \<and> Key ` set (playlist_jobs
        \<lparr>sv_URL = ''https://example.com/hi.m3u8'', sv_Bandwidth = 6000000, sv_ID = 0,
         sv_Resolution = ''1080p'', sv_OutputDir = ''data/event/1080p''\<rparr> 11
        [Some \<lparr>ms_URI = ''b.ts''\<rparr>, Some \<lparr>ms_URI = ''c.ts''\<rparr>])
      = {''11:b.ts'', ''12:c.ts''}
   \<and> {''11:b.ts'', ''12:c.ts''} \<subseteq> seen_after
        \<lparr>sv_URL = ''https://example.com/hi.m3u8'', sv_Bandwidth = 6000000, sv_ID = 0,
         sv_Resolution = ''1080p'', sv_OutputDir = ''data/event/1080p''\<rparr>
        [\<lparr>t_cancelled = False,
          t_fetch = Body (DecodedMedia \<lparr>pl_SeqNo = 10,
            pl_Segments = [Some \<lparr>ms_URI = ''a.ts''\<rparr>, Some \<lparr>ms_URI = ''b.ts''\<rparr>], pl_Closed = False\<rparr>),
          t_wait_cancelled = False\<rparr>,
         \<lparr>t_cancelled = False,
          t_fetch = Body (DecodedMedia \<lparr>pl_SeqNo = 11,
            pl_Segments = [Some \<lparr>ms_URI = ''b.ts''\<rparr>, Some \<lparr>ms_URI = ''c.ts''\<rparr>], pl_Closed = False\<rparr>),
          t_wait_cancelled = False\<rparr>]
   \<and> count_list (map Key (spawned_after
        \<lparr>sv_URL = ''https://example.com/hi.m3u8'', sv_Bandwidth = 6000000, sv_ID = 0,
         sv_Resolution = ''1080p'', sv_OutputDir = ''data/event/1080p''\<rparr>
        [\<lparr>t_cancelled = False,
          t_fetch = Body (DecodedMedia \<lparr>pl_SeqNo = 10,
            pl_Segments = [Some \<lparr>ms_URI = ''a.ts''\<rparr>, Some \<lparr>ms_URI = ''b.ts''\<rparr>], pl_Closed = False\<rparr>),
          t_wait_cancelled = False\<rparr>,
         \<lparr>t_cancelled = False,
          t_fetch = Body (DecodedMedia \<lparr>pl_SeqNo = 11,
            pl_Segments = [Some \<lparr>ms_URI = ''b.ts''\<rparr>, Some \<lparr>ms_URI = ''c.ts''\<rparr>], pl_Closed = False\<rparr>),
          t_wait_cancelled = False\<rparr>])) ''11:b.ts'' = 1"
proof -
  let ?v = "\<lparr>sv_URL = ''https://example.com/hi.m3u8'', sv_Bandwidth = 6000000, sv_ID = 0,
      sv_Resolution = ''1080p'', sv_OutputDir = ''data/event/1080p''\<rparr>"
  let ?pl = "\<lparr>pl_SeqNo = 11,
            pl_Segments = [Some \<lparr>ms_URI = ''b.ts''\<rparr>, Some \<lparr>ms_URI = ''c.ts''\<rparr>], pl_Closed = False\<rparr>"
  let ?t1 = "\<lparr>t_cancelled = False,
       t_fetch = Body (DecodedMedia \<lparr>pl_SeqNo = 10,
          pl_Segments = [Some \<lparr>ms_URI = ''a.ts''\<rparr>, Some \<lparr>ms_URI = ''b.ts''\<rparr>], pl_Closed = False\<rparr>),
       t_wait_cancelled = False\<rparr>"
  let ?t2 = "\<lparr>t_cancelled = False, t_fetch = Body (DecodedMedia ?pl), t_wait_cancelled = False\<rparr>"
  have p: "snd (VariantDownloader ?v [?t1]) = Polling"
    by code_simp
  have k: "Key ` set (playlist_jobs ?v 11 [Some \<lparr>ms_URI = ''b.ts''\<rparr>, Some \<lparr>ms_URI = ''c.ts''\<rparr>])
      = {''11:b.ts'', ''12:c.ts''}"
    by code_simp
  have c: "\<not> t_cancelled ?t2" and f: "t_fetch ?t2 = Body (DecodedMedia ?pl)"
    by simp_all
  have s: "pl_SeqNo ?pl = 11"
    and g: "pl_Segments ?pl = [Some \<lparr>ms_URI = ''b.ts''\<rparr>, Some \<lparr>ms_URI = ''c.ts''\<rparr>]"
    by simp_all
  have "Key ` set (playlist_jobs ?v (pl_SeqNo ?pl) (pl_Segments ?pl))
      \<subseteq> seen_after ?v ([?t1] @ ?t2 # [])"
    using VariantDownloader_downloads_each_key_once [of ?v "[?t1]" "[]" ?t2 ?pl] p c f by blast
  then have m: "{''11:b.ts'', ''12:c.ts''} \<subseteq> seen_after ?v [?t1, ?t2]"
    unfolding s g k by (simp only: append.simps)
  then have "''11:b.ts'' \<in> seen_after ?v [?t1, ?t2]"
    by blast
  then have n: "count_list (map Key (spawned_after ?v [?t1, ?t2])) ''11:b.ts'' = 1"
    using VariantDownloader_downloads_each_key_once [of ?v "[?t1, ?t2]" "[]" ?t2 ?pl]
    by (simp del: poll.simps)
  from p k m n show ?thesis by (intro conjI)
qed


section \<open>Properties of the transfer queue\<close>

declare attempt_loop.simps [simp del]
declare heap_up.simps [simp del]

lemma backoff_values:
  "backoff (Suc 0) = 1 * Second"
  "backoff (Suc (Suc 0)) = 4 * Second"
  "backoff (Suc (Suc (Suc 0))) = 9 * Second"
  by (simp_all add: backoff_def Duration_times_def Second_def Millisecond_def Nanosecond_def)

lemma attempt_loop_step:
  "0 < attempt \<Longrightarrow> attempt \<le> maxRetries \<Longrightarrow>
   attempt_loop env maxRetries attempt (tq, item, events) =
     (if ae_cancelled (env attempt)
      then (tq, item\<lparr>ti_Status := StatusRetrying\<rparr>, events @ [Cancelled])
      else
        (case ae_transfer (env attempt) of
           None \<Rightarrow>
             (fst (completed tq (item\<lparr>ti_Status := StatusRetrying\<rparr>)),
              snd (completed tq (item\<lparr>ti_Status := StatusRetrying\<rparr>)),
              events @ [Backoff (backoff attempt), Transfer])
         | Some err \<Rightarrow>
             if attempt = maxRetries
             then (tq\<lparr>tq_stats := IncrementFailed (tq_stats tq)\<rparr>,
                   item\<lparr>ti_Status := StatusFailed, ti_LastError := Error err,
                        ti_RetryCount := ti_RetryCount item + 1\<rparr>,
                   events @ [Backoff (backoff attempt), Transfer])
             else attempt_loop env maxRetries (Suc attempt)
                    (tq, item\<lparr>ti_Status := StatusRetrying, ti_LastError := Error err,
                              ti_RetryCount := ti_RetryCount item + 1\<rparr>,
                     events @ [Backoff (backoff attempt), Transfer])))"
  by (subst attempt_loop.simps) (simp add: Let_def split: option.splits prod.splits)

lemma processItem_loop:
  "fileExists \<noteq> (True, None) \<Longrightarrow>
     processItem fileExists env tq item = attempt_loop env 3 1 (tq, item, [])"
  by (cases fileExists) (auto simp: processItem_def split: option.splits)

text \<open>
  C5.  A worker whose three calls of \<^verbatim>\<open>TransferFile\<close> all fail, on an item that is not
  yet at its destination and with no cancellation: it waits 1 second before the first
  call, 4 seconds before the second and 9 seconds before the third, then marks its item
  Failed, having counted three retries and one failed item.  When the first call succeeds
  it has still waited 1 second before it.
\<close>

theorem processItem_backs_off_before_first_attempt:
  "processItem (False, None) (\<lambda>attempt. \<lparr>ae_cancelled = False, ae_transfer = Some err\<rparr>) tq item
     = (tq\<lparr>tq_stats := IncrementFailed (tq_stats tq)\<rparr>,
        item\<lparr>ti_Status := StatusFailed, ti_LastError := Error err,
             ti_RetryCount := ti_RetryCount item + 3\<rparr>,
        [Backoff (1 * Second), Transfer, Backoff (4 * Second), Transfer,
         Backoff (9 * Second), Transfer])
   \<and> snd (snd (processItem (False, None)
                  (\<lambda>attempt. \<lparr>ae_cancelled = False, ae_transfer = None\<rparr>) tq item))
     = [Backoff (1 * Second), Transfer]"
  by (simp add: processItem_loop attempt_loop_step backoff_values eval_nat_numeral)








lemma heap_up_mset: "j < length h \<Longrightarrow> mset (heap_up h j) = mset h"
proof (induction h j rule: heap_up.induct)
  case (1 h j)
  let ?i = "(j - 1) div 2"
  show ?case
  proof (cases "?i = j \<or> \<not> PriorityQueue_Less h j ?i")
    case True
    then show ?thesis by (subst heap_up.simps) (simp add: Let_def)
  next
    case False
    have i: "?i < length h" using "1.prems" by simp
    have l: "?i < length (PriorityQueue_Swap h ?i j)"
      using i by (simp add: PriorityQueue_Swap_def)
    have "heap_up h j = heap_up (PriorityQueue_Swap h ?i j) ?i"
      using False by (subst heap_up.simps) (simp add: Let_def)
    moreover have "mset (heap_up (PriorityQueue_Swap h ?i j) ?i) = mset (PriorityQueue_Swap h ?i j)"
      using "1.IH" [OF refl False l] .
    moreover have "mset (PriorityQueue_Swap h ?i j) = mset h"
      unfolding PriorityQueue_Swap_def using mset_swap [OF "1.prems" i] .
    ultimately show ?thesis by simp
  qed
qed

lemma heap_Push_mset: "mset (heap_Push h x) = mset h + {#x#}"
  by (simp add: heap_Push_def heap_up_mset)

lemma restore_mset:
  "\<exists>h'. restore h (map Some items) = Returns h'
     \<and> mset h' = mset h + mset (filter restorable items)"
proof (induction items arbitrary: h)
  case Nil
  show ?case by simp
next
  case (Cons item items)
  show ?case
  proof (cases "restorable item")
    case True
    obtain h' where "restore (heap_Push h item) (map Some items) = Returns h'"
      and "mset h' = mset (heap_Push h item) + mset (filter restorable items)"
      using Cons.IH [of "heap_Push h item"] by blast
    then show ?thesis using True by (simp add: heap_Push_mset)
  next
    case False
    then show ?thesis using Cons.IH [of h] by simp
  qed
qed

lemma restore_Panic_iff: "restore h items = Panic \<longleftrightarrow> None \<in> set items"
proof (induction items arbitrary: h)
  case Nil
  show ?case by simp
next
  case (Cons a items)
  then show ?case by (cases a) auto
qed

text \<open>
  C7, as the code has it.  For a snapshot without \<^verbatim>\<open>null\<close> entries, \<^verbatim>\<open>LoadState\<close>
  returns without error and adds to the heap exactly the entries whose status is Pending
  or Failed, each as it is in the snapshot (a Failed entry stays Failed); entries of any
  other status, InProgress and Retrying among them, are added in no form.  The statistics
  of the snapshot, when it has some, replace the queue's.  On start the heap is empty
  before the load, so afterwards it holds those entries and nothing else.
\<close>

theorem LoadState_restores_Pending_and_Failed_only:
  assumes "ss_Items state = map Some items"
  shows "\<exists>tq'. LoadState (Snapshot state) tq = Returns (tq', None)
       \<and> mset (tq_items tq')
           = mset (tq_items tq)
             + mset (filter (\<lambda>item. ti_Status item = StatusPending \<or> ti_Status item = StatusFailed) items)
       \<and> (tq_items tq = [] \<longrightarrow>
            set (tq_items tq')
              = {item \<in> set items. ti_Status item = StatusPending \<or> ti_Status item = StatusFailed})
       \<and> tq_stats tq' = (case ss_Stats state of None \<Rightarrow> tq_stats tq | Some stats \<Rightarrow> stats)
       \<and> tq_config tq' = tq_config tq \<and> tq_cleanup tq' = tq_cleanup tq"
proof -
  have f: "filter restorable items
      = filter (\<lambda>item. ti_Status item = StatusPending \<or> ti_Status item = StatusFailed) items"
    by (rule filter_cong) (simp_all add: restorable_def)
  obtain h' where r: "restore (tq_items tq) (map Some items) = Returns h'"
    and m: "mset h' = mset (tq_items tq) + mset (filter restorable items)"
    using restore_mset [of "tq_items tq" items] by blast
  have s: "tq_items tq = [] \<longrightarrow>
      set h' = {item \<in> set items. ti_Status item = StatusPending \<or> ti_Status item = StatusFailed}"
  proof
    assume "tq_items tq = []"
    then have "mset h' = mset (filter restorable items)" using m by simp
    then have "set h' = set (filter restorable items)" by (rule mset_eq_setD)
    then show "set h' = {item \<in> set items. ti_Status item = StatusPending \<or> ti_Status item = StatusFailed}"
      by (simp add: f)
  qed
  show ?thesis
    using r m s by (simp add: LoadState_def assms f)
qed

text \<open>
  The theorem at a queue with an empty heap, as it is on start, and a snapshot of four
  entries, one of each of the statuses Pending, InProgress, Retrying and Failed: the
  loaded queue holds the Pending and the Failed entry.
\<close>

theorem LoadState_restores_Pending_and_Failed_only_witness:
  "\<exists>tq'. LoadState
       (Snapshot
         \<lparr>ss_Items =
            [Some \<lparr>ti_ID = ''a'', ti_SourcePath = ''data/a.ts'', ti_DestinationPath = ''a.ts'',
                   ti_Resolution = ''1080p'', ti_Timestamp = 100, ti_RetryCount = 0,
                   ti_Status = StatusPending, ti_FileSize = 4096, ti_LastError = []\<rparr>,
             Some \<lparr>ti_ID = ''b'', ti_SourcePath = ''data/b.ts'', ti_DestinationPath = ''b.ts'',
                   ti_Resolution = ''1080p'', ti_Timestamp = 200, ti_RetryCount = 0,
                   ti_Status = StatusInProgress, ti_FileSize = 4096, ti_LastError = []\<rparr>,
             Some \<lparr>ti_ID = ''c'', ti_SourcePath = ''data/c.ts'', ti_DestinationPath = ''c.ts'',
                   ti_Resolution = ''1080p'', ti_Timestamp = 300, ti_RetryCount = 1,
                   ti_Status = StatusRetrying, ti_FileSize = 4096, ti_LastError = ''timeout''\<rparr>,
             Some \<lparr>ti_ID = ''d'', ti_SourcePath = ''data/d.ts'', ti_DestinationPath = ''d.ts'',
                   ti_Resolution = ''1080p'', ti_Timestamp = 400, ti_RetryCount = 3,
                   ti_Status = StatusFailed, ti_FileSize = 4096, ti_LastError = ''timeout''\<rparr>],
          ss_Stats = None\<rparr>)
       \<lparr>tq_config = \<lparr>qc_WorkerCount = 2, qc_PersistencePath = ''data/queue.json'',
                     qc_MaxQueueSize = 100000, qc_BatchSize = 1000\<rparr>,
        tq_items = [],
        tq_stats = \<lparr>qs_TotalAdded = 0, qs_TotalCompleted = 0, qs_TotalFailed = 0,
                     qs_CurrentPending = 0, qs_BytesTransferred = 0\<rparr>,
        tq_cleanup = None\<rparr> = Returns (tq', None)
     \<and> mset (tq_items tq') =
         {#\<lparr>ti_ID = ''a'', ti_SourcePath = ''data/a.ts'', ti_DestinationPath = ''a.ts'',
            ti_Resolution = ''1080p'', ti_Timestamp = 100, ti_RetryCount = 0,
            ti_Status = StatusPending, ti_FileSize = 4096, ti_LastError = []\<rparr>,
           \<lparr>ti_ID = ''d'', ti_SourcePath = ''data/d.ts'', ti_DestinationPath = ''d.ts'',
            ti_Resolution = ''1080p'', ti_Timestamp = 400, ti_RetryCount = 3,
            ti_Status = StatusFailed, ti_FileSize = 4096, ti_LastError = ''timeout''\<rparr>#}"
proof -
  let ?a = "\<lparr>ti_ID = ''a'', ti_SourcePath = ''data/a.ts'', ti_DestinationPath = ''a.ts'',
            ti_Resolution = ''1080p'', ti_Timestamp = 100, ti_RetryCount = 0,
            ti_Status = StatusPending, ti_FileSize = 4096, ti_LastError = []\<rparr>"
  let ?b = "\<lparr>ti_ID = ''b'', ti_SourcePath = ''data/b.ts'', ti_DestinationPath = ''b.ts'',
            ti_Resolution = ''1080p'', ti_Timestamp = 200, ti_RetryCount = 0,
            ti_Status = StatusInProgress, ti_FileSize = 4096, ti_LastError = []\<rparr>"
  let ?c = "\<lparr>ti_ID = ''c'', ti_SourcePath = ''data/c.ts'', ti_DestinationPath = ''c.ts'',
            ti_Resolution = ''1080p'', ti_Timestamp = 300, ti_RetryCount = 1,
            ti_Status = StatusRetrying, ti_FileSize = 4096, ti_LastError = ''timeout''\<rparr>"
  let ?d = "\<lparr>ti_ID = ''d'', ti_SourcePath = ''data/d.ts'', ti_DestinationPath = ''d.ts'',
            ti_Resolution = ''1080p'', ti_Timestamp = 400, ti_RetryCount = 3,
            ti_Status = StatusFailed, ti_FileSize = 4096, ti_LastError = ''timeout''\<rparr>"
  let ?state = "\<lparr>ss_Items = [Some ?a, Some ?b, Some ?c, Some ?d], ss_Stats = None\<rparr>"
  let ?tq = "\<lparr>tq_config = \<lparr>qc_WorkerCount = 2, qc_PersistencePath = ''data/queue.json'',
                     qc_MaxQueueSize = 100000, qc_BatchSize = 1000\<rparr>,
        tq_items = [],
        tq_stats = \<lparr>qs_TotalAdded = 0, qs_TotalCompleted = 0, qs_TotalFailed = 0,
                     qs_CurrentPending = 0, qs_BytesTransferred = 0\<rparr>,
        tq_cleanup = None\<rparr>"
  have h: "ss_Items ?state = map Some [?a, ?b, ?c, ?d]" by simp
  have f: "filter (\<lambda>item. ti_Status item = StatusPending \<or> ti_Status item = StatusFailed)
             [?a, ?b, ?c, ?d] = [?a, ?d]"
    by (simp add: StatusPending_def StatusInProgress_def StatusFailed_def StatusRetrying_def)
  obtain tq' where "LoadState (Snapshot ?state) ?tq = Returns (tq', None)"
    and "mset (tq_items tq')
           = mset (tq_items ?tq)
             + mset (filter (\<lambda>item. ti_Status item = StatusPending \<or> ti_Status item = StatusFailed)
                  [?a, ?b, ?c, ?d])"
    using LoadState_restores_Pending_and_Failed_only [OF h, where tq = ?tq]
    by blast
  then show ?thesis
    unfolding f by (intro exI [of _ tq']) simp
qed

text \<open>
  Against C7: the load of that snapshot into that queue, computed in full.  The heap
  holds the Failed and the Pending entry; the InProgress and the Retrying entry are gone,
  not restored as Pending.
\<close>

theorem LoadState_discards_InProgress_and_Retrying:
  "LoadState
       (Snapshot
         \<lparr>ss_Items =
            [Some \<lparr>ti_ID = ''a'', ti_SourcePath = ''data/a.ts'', ti_DestinationPath = ''a.ts'',
                   ti_Resolution = ''1080p'', ti_Timestamp = 100, ti_RetryCount = 0,
                   ti_Status = StatusPending, ti_FileSize = 4096, ti_LastError = []\<rparr>,
             Some \<lparr>ti_ID = ''b'', ti_SourcePath = ''data/b.ts'', ti_DestinationPath = ''b.ts'',
                   ti_Resolution = ''1080p'', ti_Timestamp = 200, ti_RetryCount = 0,
                   ti_Status = StatusInProgress, ti_FileSize = 4096, ti_LastError = []\<rparr>,
             Some \<lparr>ti_ID = ''c'', ti_SourcePath = ''data/c.ts'', ti_DestinationPath = ''c.ts'',
                   ti_Resolution = ''1080p'', ti_Timestamp = 300, ti_RetryCount = 1,
                   ti_Status = StatusRetrying, ti_FileSize = 4096, ti_LastError = ''timeout''\<rparr>,
             Some \<lparr>ti_ID = ''d'', ti_SourcePath = ''data/d.ts'', ti_DestinationPath = ''d.ts'',
                   ti_Resolution = ''1080p'', ti_Timestamp = 400, ti_RetryCount = 3,
                   ti_Status = StatusFailed, ti_FileSize = 4096, ti_LastError = ''timeout''\<rparr>],
          ss_Stats = None\<rparr>)
       \<lparr>tq_config = \<lparr>qc_WorkerCount = 2, qc_PersistencePath = ''data/queue.json'',
                     qc_MaxQueueSize = 100000, qc_BatchSize = 1000\<rparr>,
        tq_items = [],
        tq_stats = \<lparr>qs_TotalAdded = 0, qs_TotalCompleted = 0, qs_TotalFailed = 0,
                     qs_CurrentPending = 0, qs_BytesTransferred = 0\<rparr>,
        tq_cleanup = None\<rparr>
     = Returns
         (\<lparr>tq_config = \<lparr>qc_WorkerCount = 2, qc_PersistencePath = ''data/queue.json'',
                         qc_MaxQueueSize = 100000, qc_BatchSize = 1000\<rparr>,
           tq_items =
             [\<lparr>ti_ID = ''d'', ti_SourcePath = ''data/d.ts'', ti_DestinationPath = ''d.ts'',
            ti_Resolution = ''1080p'', ti_Timestamp = 400, ti_RetryCount = 3,
            ti_Status = StatusFailed, ti_FileSize = 4096, ti_LastError = ''timeout''\<rparr>,
              \<lparr>ti_ID = ''a'', ti_SourcePath = ''data/a.ts'', ti_DestinationPath = ''a.ts'',
            ti_Resolution = ''1080p'', ti_Timestamp = 100, ti_RetryCount = 0,
            ti_Status = StatusPending, ti_FileSize = 4096, ti_LastError = []\<rparr>],
           tq_stats = \<lparr>qs_TotalAdded = 0, qs_TotalCompleted = 0, qs_TotalFailed = 0,
                        qs_CurrentPending = 0, qs_BytesTransferred = 0\<rparr>,
           tq_cleanup = None\<rparr>, None)"
  by code_simp

end
